theory Spec2Isabelle
  imports Main "HOL-Library.AList" "HOL-Library.Multiset" "HOL-Library.Char_ord"
    "HOL-Library.List_Lexorder"
begin

section \<open>Exceptions and exit status\<close>

text \<open>
  The exceptions of the scripts that nothing catches: \<open>pd.read_csv\<close> raising on a merged
  table, the \<open>TypeError\<close> of a sort that has to compare a number with a text, the
  \<open>ValueError\<close> of the format \<open>:.3f\<close> applied to a text, and the \<open>EOFError\<close> of \<open>input()\<close>
  at the end of the input.
\<close>

datatype py_error = ReadCsvError string | TypeError | ValueError | EOFError

text \<open>
  The exit status of a Python process: 0 when the script runs to its end (a \<open>return\<close>
  from its main function and a call of \<open>exit()\<close> included), 1 when an exception is not
  caught.
\<close>

definition exit_status_of :: "py_error option \<Rightarrow> nat" where
  "exit_status_of e = (case e of None \<Rightarrow> 0 | Some x \<Rightarrow> 1)"

section \<open>Score Aggregator (4.merge\_and\_sort\_1st\_iPTM\_2nd\_iPAE\_final\_stats\_batch\_processing.py)\<close>

subsection \<open>Data frames\<close>

text \<open>
  A cell of a metric column: empty (pandas NaN), a number, or a text that is not a
  number.  The number type is any linear order, standing for the floating point values
  other than NaN under their comparison.
\<close>

datatype 'm cell = NaN | Num 'm | Text string

text \<open>
  A row of a score table.  Only the columns the scripts look at are kept: the design
  identifier (\<open>None\<close> when the cell is empty), the two metrics, and the two provenance
  columns the aggregator adds.  The cells of a column the table does not have are empty.
\<close>

record 'm row =
  Design :: "string option"
  Average_i_pTM :: "'m cell"
  Average_i_pAE :: "'m cell"
  source_subfolder :: "string option"
  source_file :: "string option"

text \<open>
  A data frame: its column names and its rows, each row under its index label, as pandas
  keeps them (\<open>sort_values\<close> moves a row together with its label).
\<close>

record 'm dataframe =
  columns :: "string list"
  rows :: "(nat \<times> 'm row) list"

text \<open>\<open>df[c] = v\<close> for the two provenance columns: the column is appended when new.\<close>

definition add_column :: "string \<Rightarrow> string list \<Rightarrow> string list" where
  "add_column c cs = (if c \<in> set cs then cs else cs @ [c])"

definition set_source_subfolder :: "string \<Rightarrow> 'm dataframe \<Rightarrow> 'm dataframe" where
  "set_source_subfolder v df =
     df\<lparr>columns := add_column ''source_subfolder'' (columns df),
        rows := map (\<lambda>(i, r). (i, r\<lparr>source_subfolder := Some v\<rparr>)) (rows df)\<rparr>"

definition set_source_file :: "string \<Rightarrow> 'm dataframe \<Rightarrow> 'm dataframe" where
  "set_source_file v df =
     df\<lparr>columns := add_column ''source_file'' (columns df),
        rows := map (\<lambda>(i, r). (i, r\<lparr>source_file := Some v\<rparr>)) (rows df)\<rparr>"

text \<open>\<open>reset_index(drop=True)\<close>: the labels become the positions \<open>0..n-1\<close>.\<close>

definition reset_index :: "'m dataframe \<Rightarrow> 'm dataframe" where
  "reset_index df = df\<lparr>rows := zip [0..<length (rows df)] (map snd (rows df))\<rparr>"

text \<open>
  \<open>pd.concat(dfs, ignore_index=True)\<close>: the union of the columns in order of first
  appearance, all rows in order, relabelled \<open>0..n-1\<close>.
\<close>

definition pd_concat :: "'m dataframe list \<Rightarrow> 'm dataframe" where
  "pd_concat dfs =
     \<lparr>columns = foldl (\<lambda>cs c. add_column c cs) [] (concat (map columns dfs)),
      rows = (let rs = concat (map (\<lambda>df. map snd (rows df)) dfs) in zip [0..<length rs] rs)\<rparr>"

subsection \<open>Sorting\<close>

text \<open>
  Order of two cells of one sort column: \<open>cell_before asc a b\<close> holds when \<open>a\<close> comes
  strictly before \<open>b\<close>, ascending or descending: numbers by their order, texts by the
  order of strings, and NaN after everything else (\<open>na_position='last'\<close>, the default).
  A number and a text are never compared, since the sort raises on a column that has
  both; the order puts the number first to be total.
\<close>

fun cell_before :: "bool \<Rightarrow> 'm::linorder cell \<Rightarrow> 'm cell \<Rightarrow> bool" where
  "cell_before asc (Num x) (Num y) = (if asc then x < y else y < x)"
| "cell_before asc (Text s) (Text t) = (if asc then s < t else t < s)"
| "cell_before asc (Num x) (Text t) = True"
| "cell_before asc (Text s) (Num y) = False"
| "cell_before asc (Num x) NaN = True"
| "cell_before asc (Text s) NaN = True"
| "cell_before asc NaN b = False"

definition metric :: "string \<Rightarrow> 'm row \<Rightarrow> 'm cell" where
  "metric c r =
     (if c = ''Average_i_pTM'' then Average_i_pTM r
      else if c = ''Average_i_pAE'' then Average_i_pAE r
      else NaN)"

text \<open>Lexicographic comparison of two rows on a list of (column, ascending) keys.\<close>

fun lex_le :: "(string \<times> bool) list \<Rightarrow> 'm::linorder row \<Rightarrow> 'm row \<Rightarrow> bool" where
  "lex_le [] r s = True"
| "lex_le ((c, asc) # ks) r s =
     (if cell_before asc (metric c r) (metric c s) then True
      else if cell_before asc (metric c s) (metric c r) then False
      else lex_le ks r s)"

text \<open>
  The stable sort: an element is placed before the first element that does not come
  strictly before it, and the list is built from its end, so that rows with equal keys
  keep their order.  A stable sort has one result only, so this stands for the
  lexsort pandas uses on several columns.
\<close>

fun insert_stable :: "('a \<Rightarrow> 'a \<Rightarrow> bool) \<Rightarrow> 'a \<Rightarrow> 'a list \<Rightarrow> 'a list" where
  "insert_stable le x [] = [x]"
| "insert_stable le x (y # ys) = (if le x y then x # y # ys else y # insert_stable le x ys)"

fun stable_sort :: "('a \<Rightarrow> 'a \<Rightarrow> bool) \<Rightarrow> 'a list \<Rightarrow> 'a list" where
  "stable_sort le [] = []"
| "stable_sort le (x # xs) = insert_stable le x (stable_sort le xs)"

text \<open>A column that has a number and a text: sorting on it raises \<open>TypeError\<close>.\<close>

definition is_num :: "'m cell \<Rightarrow> bool" where
  "is_num c = (case c of Num x \<Rightarrow> True | _ \<Rightarrow> False)"

definition is_text :: "'m cell \<Rightarrow> bool" where
  "is_text c = (case c of Text s \<Rightarrow> True | _ \<Rightarrow> False)"

definition mixed_column :: "string \<Rightarrow> (nat \<times> 'm row) list \<Rightarrow> bool" where
  "mixed_column c rs =
     (list_ex (\<lambda>x. is_num (metric c (snd x))) rs \<and> list_ex (\<lambda>x. is_text (metric c (snd x))) rs)"

text \<open>
  \<open>df.sort_values(keys, ascending=...)\<close> with the default \<open>kind='quicksort'\<close>.  pandas
  applies \<open>kind\<close> only when there is a single sort column; that sort is numpy's, it is not
  stable, and it is the parameter \<open>qs\<close> here.  With two columns pandas sorts
  lexicographically and stably.
\<close>

type_synonym 'm single_key_sort =
  "(string \<times> bool) \<Rightarrow> (nat \<times> 'm row) list \<Rightarrow> (nat \<times> 'm row) list"

definition sort_values ::
  "'m single_key_sort \<Rightarrow> (string \<times> bool) list \<Rightarrow> 'm::linorder dataframe \<Rightarrow>
   py_error + 'm dataframe" where
  "sort_values qs keys df =
     (if list_ex (\<lambda>k. mixed_column (fst k) (rows df)) keys then Inl TypeError
      else Inr (df\<lparr>rows := (case keys of
                   [k] \<Rightarrow> qs k (rows df)
                 | _ \<Rightarrow> stable_sort (\<lambda>a b. lex_le keys (snd a) (snd b)) (rows df))\<rparr>))"

text \<open>Lines 105-115 and 132-142: the sort columns that are present.\<close>

definition sort_columns :: "'m dataframe \<Rightarrow> (string \<times> bool) list" where
  "sort_columns df =
     (if ''Average_i_pTM'' \<in> set (columns df) then [(''Average_i_pTM'', False)] else []) @
     (if ''Average_i_pAE'' \<in> set (columns df) then [(''Average_i_pAE'', True)] else [])"

definition sort_if_possible ::
  "'m single_key_sort \<Rightarrow> 'm::linorder dataframe \<Rightarrow> py_error + 'm dataframe" where
  "sort_if_possible qs df =
     (if sort_columns df \<noteq> [] then sort_values qs (sort_columns df) df else Inr df)"

text \<open>
  Lines 149-152: with both sort columns, the two metrics of the first five rows are
  printed with the format \<open>:.3f\<close>, which raises on a text.
\<close>

definition print_top5 :: "'m dataframe \<Rightarrow> py_error option" where
  "print_top5 df =
     (if list_ex (\<lambda>x. is_text (Average_i_pTM (snd x)) \<or> is_text (Average_i_pAE (snd x)))
           (take 5 (rows df))
      then Some ValueError else None)"

subsection \<open>The script\<close>

text \<open>Python's \<open>str.startswith\<close>.\<close>

fun startswith :: "string \<Rightarrow> string \<Rightarrow> bool" where
  "startswith s [] = True"
| "startswith [] (p # ps) = False"
| "startswith (c # cs) (p # ps) = (c = p \<and> startswith cs ps)"

text \<open>
  What the script finds under \<open>stats\<close>: the subdirectories in \<open>os.listdir\<close> order, each
  with its \<open>*.csv\<close> files, and the \<open>*.csv\<close> files directly in \<open>stats\<close>.  A file is its
  name and what \<open>pd.read_csv\<close> does on it: it raises (\<open>Inl\<close>, the message) or returns a
  frame.
\<close>

type_synonym 'm csv_file = "string \<times> (string + 'm dataframe)"

record 'm stats_dir =
  subdirs :: "(string \<times> 'm csv_file list) list"
  direct_files :: "'m csv_file list"

datatype message =
    ErrorReading string string
  | SortedData string
  | NoMetricColumns string
  | NoCsvFound

text \<open>Lines 88-99: the read loop of one subfolder, in sorted file order.\<close>

fun read_loop ::
  "string \<Rightarrow> 'm csv_file list \<Rightarrow> 'm dataframe list \<times> message list" where
  "read_loop subdir [] = ([], [])"
| "read_loop subdir ((name, res) # fs) =
     (let (dfs, msgs) = read_loop subdir fs in
      case res of
        Inl e \<Rightarrow> (dfs, ErrorReading name e # msgs)
      | Inr df \<Rightarrow> (set_source_file name (set_source_subfolder subdir df) # dfs, msgs))"

text \<open>Lines 76-80: the files of a subfolder that are read, \<open>merged_*\<close> left out, sorted.\<close>

definition csv_files_of :: "'m csv_file list \<Rightarrow> 'm csv_file list" where
  "csv_files_of fs = sort_key fst (filter (\<lambda>f. \<not> startswith (fst f) ''merged_'') fs)"

record 'm subdir_result =
  read_dfs :: "'m dataframe list"
  concat_subdir_df :: "'m dataframe option"
  merged_subdir_df :: "'m dataframe option"
  subdir_messages :: "message list"

text \<open>
  Lines 75-125: one iteration of the loop over the subfolders.  \<open>concat_subdir_df\<close> is
  the frame of line 103, \<open>merged_subdir_df\<close> the one written to
  \<open>merged_<subdir>_stats.csv\<close>.  The sort of line 118 may raise.
\<close>

definition process_subdir ::
  "'m single_key_sort \<Rightarrow> string \<times> 'm::linorder csv_file list \<Rightarrow> py_error + 'm subdir_result" where
  "process_subdir qs sd =
     (let (dfs, msgs) = read_loop (fst sd) (csv_files_of (snd sd)) in
      if dfs = [] then
        Inr \<lparr>read_dfs = [], concat_subdir_df = None, merged_subdir_df = None,
             subdir_messages = msgs\<rparr>
      else
        let merged = pd_concat dfs in
        case sort_if_possible qs merged of
          Inl e \<Rightarrow> Inl e
        | Inr sorted_df \<Rightarrow>
            Inr \<lparr>read_dfs = dfs,
                 concat_subdir_df = Some merged,
                 merged_subdir_df = Some sorted_df,
                 subdir_messages = msgs @
                   [if sort_columns merged \<noteq> [] then SortedData (fst sd)
                    else NoMetricColumns (fst sd)]\<rparr>)"

text \<open>
  Lines 75-125: the loop over the subfolders.  It ends at the first exception; the
  result is what the iterations before it did, and the exception if any.
\<close>

fun subdir_loop ::
  "'m single_key_sort \<Rightarrow> (string \<times> 'm::linorder csv_file list) list \<Rightarrow>
   (string \<times> 'm subdir_result) list \<times> py_error option" where
  "subdir_loop qs [] = ([], None)"
| "subdir_loop qs (sd # sds) =
     (case process_subdir qs sd of
        Inl e \<Rightarrow> ([], Some e)
      | Inr r \<Rightarrow> (let (rs, e) = subdir_loop qs sds in ((fst sd, r) # rs, e)))"

text \<open>
  Lines 47-72: the subfolders to process.  With no subdirectory, the \<open>*.csv\<close> files
  directly in \<open>stats\<close> are linked into a new subfolder \<open>direct_files\<close>, the \<open>merged_*\<close> ones
  left out; with no file either, the script calls \<open>exit()\<close>.
\<close>

definition effective_subdirs :: "'m stats_dir \<Rightarrow> (string \<times> 'm csv_file list) list option" where
  "effective_subdirs st =
     (if subdirs st \<noteq> [] then Some (subdirs st)
      else if direct_files st \<noteq> [] then
        Some [(''direct_files'',
               filter (\<lambda>f. \<not> startswith (fst f) ''merged_'') (direct_files st))]
      else None)"

record 'm aggregator_output =
  subdir_results :: "(string \<times> 'm subdir_result) list"
  master_concat :: "'m dataframe option"
  master_sorted :: "'m dataframe option"
  master_df :: "'m dataframe option"
  messages :: "message list"
  error :: "py_error option"

text \<open>
  Lines 127-172: the master table, once the loop over the subfolders has ended without
  exception.  The sort of line 145 and the printing of lines 149-152 may raise; the
  table is written in line 160, after them.
\<close>

definition master_part ::
  "'m single_key_sort \<Rightarrow> (string \<times> 'm::linorder subdir_result) list \<Rightarrow> 'm aggregator_output" where
  "master_part qs results =
     (let all_dfs = concat (map (\<lambda>nr. read_dfs (snd nr)) results);
          msgs = concat (map (\<lambda>nr. subdir_messages (snd nr)) results);
          failed = (\<lambda>e. \<lparr>subdir_results = results, master_concat = None, master_sorted = None,
                          master_df = None, messages = msgs, error = Some e\<rparr>)
      in if all_dfs = [] then
           \<lparr>subdir_results = results, master_concat = None, master_sorted = None,
            master_df = None, messages = msgs @ [NoCsvFound], error = None\<rparr>
         else
           let m = pd_concat all_dfs in
           if sort_columns m = [] then
             \<lparr>subdir_results = results, master_concat = Some m, master_sorted = Some m,
              master_df = Some m, messages = msgs @ [NoMetricColumns ''master''],
              error = None\<rparr>
           else
             case sort_values qs (sort_columns m) m of
               Inl e \<Rightarrow> failed e
             | Inr sorted_df \<Rightarrow>
                 (case (if length (sort_columns m) = 2 then print_top5 sorted_df else None) of
                    Some e \<Rightarrow> failed e
                  | None \<Rightarrow>
                      \<lparr>subdir_results = results, master_concat = Some m,
                       master_sorted = Some sorted_df,
                       master_df = Some (reset_index sorted_df),
                       messages = msgs @ [SortedData ''master''], error = None\<rparr>))"

text \<open>
  The whole script.  \<open>subdir_results\<close> are the subfolders whose iteration ended, with the
  table written for each; \<open>master_concat\<close> is the frame of line 130, \<open>master_sorted\<close> the
  one after \<open>sort_values\<close> in line 145 (the frame as it is when there is no metric
  column), \<open>master_df\<close> the frame written to \<open>merged_all_final_design_stats.csv\<close>; the
  three are there only when the master table is written.  \<open>error\<close> is the exception
  that ended the script, if any.
\<close>

definition aggregate :: "'m single_key_sort \<Rightarrow> 'm::linorder stats_dir \<Rightarrow> 'm aggregator_output" where
  "aggregate qs st =
     (case effective_subdirs st of
        None \<Rightarrow> \<lparr>subdir_results = [], master_concat = None, master_sorted = None,
                 master_df = None, messages = [NoCsvFound], error = None\<rparr>
      | Some sds \<Rightarrow>
          (case subdir_loop qs sds of
             (results, Some e) \<Rightarrow>
               \<lparr>subdir_results = results, master_concat = None, master_sorted = None,
                master_df = None,
                messages = concat (map (\<lambda>nr. subdir_messages (snd nr)) results),
                error = Some e\<rparr>
           | (results, None) \<Rightarrow> master_part qs results))"

definition aggregate_script_exit :: "'m single_key_sort \<Rightarrow> 'm::linorder stats_dir \<Rightarrow> nat" where
  "aggregate_script_exit qs st = exit_status_of (error (aggregate qs st))"

text \<open>
  The tables the script ranks, each as the pair of the concatenated input frame and the
  sorted frame that is written: the master table, then one table per subfolder that had
  a readable file.
\<close>

definition ranked_pairs :: "'m aggregator_output \<Rightarrow> ('m dataframe \<times> 'm dataframe) list" where
  "ranked_pairs out =
     (case (master_concat out, master_sorted out) of
        (Some i, Some s) \<Rightarrow> [(i, s)] | _ \<Rightarrow> []) @
     concat (map (\<lambda>nr. case (concat_subdir_df (snd nr), merged_subdir_df (snd nr)) of
                          (Some i, Some s) \<Rightarrow> [(i, s)] | _ \<Rightarrow> [])
                 (subdir_results out))"

text \<open>
  A comparison of two metric cells as numbers, as the floating point comparison makes
  it: false as soon as one of them is NaN.
\<close>

definition cell_less :: "'m::linorder cell \<Rightarrow> 'm cell \<Rightarrow> bool" where
  "cell_less a b = (case (a, b) of (Num x, Num y) \<Rightarrow> x < y | _ \<Rightarrow> False)"

section \<open>Rank assignment (6.ranking\_batch1.2.py, 9\_exluding\_doublets.py)\<close>

text \<open>
  \<open>df['master_rank'] = range(1, len(df) + 1)\<close>: each row of a table that was read gets
  its 1-based position as its rank.
\<close>

definition assign_rank :: "'a list \<Rightarrow> (nat \<times> 'a) list" where
  "assign_rank rs = zip [1..<Suc (length rs)] rs"

section \<open>Strings, paths and regular expressions of the Python library\<close>

text \<open>
  Strings are lists of 8-bit characters.  Among them the decimal digits, which is what
  \<open>\d\<close> matches, are \<open>0\<close> to \<open>9\<close>, and the white space \<open>str.strip\<close> removes is the
  characters 9 to 13, 28 to 32, 133 and 160.
\<close>

definition isdigit :: "char \<Rightarrow> bool" where
  "isdigit c = (c \<in> set ''0123456789'')"

definition isspace :: "char \<Rightarrow> bool" where
  "isspace c = (of_char c \<in> set [9, 10, 11, 12, 13, 28, 29, 30, 31, 32, 133, 160 :: nat])"

definition newline :: char where
  "newline = char_of (10 :: nat)"

fun endswith :: "string \<Rightarrow> string \<Rightarrow> bool" where
  "endswith s p = startswith (rev s) (rev p)"

text \<open>\<open>sub in s\<close>: \<open>sub\<close> occurs in \<open>s\<close> as a substring.\<close>

fun str_in :: "string \<Rightarrow> string \<Rightarrow> bool" where
  "str_in sub [] = (sub = [])"
| "str_in sub (c # cs) = (startswith (c # cs) sub \<or> str_in sub cs)"

text \<open>\<open>s.strip()\<close>.\<close>

definition str_strip :: "string \<Rightarrow> string" where
  "str_strip s = rev (dropWhile isspace (rev (dropWhile isspace s)))"

text \<open>
  \<open>s.lower()\<close>: among the 8-bit characters the upper case letters are \<open>A\<close> to \<open>Z\<close> and
  the characters 192 to 222 but 215, and the lower case letter is 32 further.
\<close>

definition lower_char :: "char \<Rightarrow> char" where
  "lower_char c =
     (let n = (of_char c :: nat) in
      if (65 \<le> n \<and> n \<le> 90) \<or> (192 \<le> n \<and> n \<le> 222 \<and> n \<noteq> 215) then char_of (n + 32) else c)"

definition str_lower :: "string \<Rightarrow> string" where
  "str_lower s = map lower_char s"

text \<open>
  \<open>s.replace(old, new)\<close> for a non-empty \<open>old\<close>: the occurrences are replaced from left
  to right, without overlap.  \<open>str_replace_from k\<close> skips \<open>k\<close> characters first (the rest of
  an occurrence already replaced).
\<close>

fun str_replace_from :: "nat \<Rightarrow> string \<Rightarrow> string \<Rightarrow> string \<Rightarrow> string" where
  "str_replace_from k old new [] = []"
| "str_replace_from (Suc k) old new (c # cs) = str_replace_from k old new cs"
| "str_replace_from 0 old new (c # cs) =
     (if startswith (c # cs) old then new @ str_replace_from (length old - 1) old new cs
      else c # str_replace_from 0 old new cs)"

definition str_replace :: "string \<Rightarrow> string \<Rightarrow> string \<Rightarrow> string" where
  "str_replace old new s = str_replace_from 0 old new s"

text \<open>\<open>s.rfind(c)\<close> for a single character: the last index of \<open>c\<close>, or \<open>-1\<close>.\<close>

definition rfind :: "char \<Rightarrow> string \<Rightarrow> int" where
  "rfind c s =
     (if c \<in> set s then int (length s) - 1 - int (length (takeWhile (\<lambda>x. x \<noteq> c) (rev s)))
      else - 1)"

text \<open>
  \<open>os.path.splitext\<close> (posixpath): the extension starts at the last dot of the last
  path component, unless only dots come before it in that component.
\<close>

definition splitext :: "string \<Rightarrow> string \<times> string" where
  "splitext p =
     (let sepIndex = rfind CHR ''/'' p; dotIndex = rfind CHR ''.'' p in
      if dotIndex > sepIndex \<and>
         list_ex (\<lambda>c. c \<noteq> CHR ''.'') (take (nat (dotIndex - (sepIndex + 1))) (drop (nat (sepIndex + 1)) p))
      then (take (nat dotIndex) p, drop (nat dotIndex) p)
      else (p, []))"

text \<open>\<open>os.path.basename\<close>, \<open>os.path.dirname\<close> and \<open>os.path.join\<close> of two paths (posixpath).\<close>

definition basename :: "string \<Rightarrow> string" where
  "basename p = drop (nat (rfind CHR ''/'' p + 1)) p"

definition dirname :: "string \<Rightarrow> string" where
  "dirname p =
     (let head = take (nat (rfind CHR ''/'' p + 1)) p in
      if head \<noteq> [] \<and> list_ex (\<lambda>c. c \<noteq> CHR ''/'') head
      then rev (dropWhile (\<lambda>c. c = CHR ''/'') (rev head)) else head)"

definition path_join :: "string \<Rightarrow> string \<Rightarrow> string" where
  "path_join a b =
     (if startswith b ''/'' then b
      else if a = [] \<or> endswith a ''/'' then a @ b
      else a @ ''/'' @ b)"

text \<open>\<open>s.split(sep)\<close> for a single character.\<close>

fun split_on :: "char \<Rightarrow> string \<Rightarrow> string list" where
  "split_on sep [] = [[]]"
| "split_on sep (c # cs) =
     (if c = sep then [] # split_on sep cs
      else case split_on sep cs of w # ws \<Rightarrow> (c # w) # ws | [] \<Rightarrow> [[c]])"

text \<open>
  \<open>Path(p).parts\<close> for a relative path (the scripts get their paths from
  \<open>os.walk(".")\<close>): the components, without the empty ones and the dots.
\<close>

definition path_parts :: "string \<Rightarrow> string list" where
  "path_parts p = filter (\<lambda>w. w \<noteq> [] \<and> w \<noteq> ''.'') (split_on CHR ''/'' p)"

text \<open>\<open>str(n)\<close> for a rank: its decimal digits.\<close>

definition digit_char :: "nat \<Rightarrow> char" where
  "digit_char d = ''0123456789'' ! d"

fun str_of_nat :: "nat \<Rightarrow> string" where
  "str_of_nat n = (if n < 10 then [digit_char n] else str_of_nat (n div 10) @ [digit_char (n mod 10)])"

subsection \<open>The regular expressions of the scripts\<close>

text \<open>
  \<open>s\d+_mpnn\d+\<close> matched at the start of \<open>s\<close>.  A run of digits is taken as long as it
  goes: what has to follow it is not a digit, so giving digits back never helps.
\<close>

definition match_identifier :: "string \<Rightarrow> string option" where
  "match_identifier s =
     (case s of
        [] \<Rightarrow> None
      | c # rest \<Rightarrow>
          let d1 = takeWhile isdigit rest; r1 = dropWhile isdigit rest;
              d2 = takeWhile isdigit (drop 5 r1)
          in if c = CHR ''s'' \<and> d1 \<noteq> [] \<and> startswith r1 ''_mpnn'' \<and> d2 \<noteq> []
             then Some (c # d1 @ ''_mpnn'' @ d2) else None)"

text \<open>\<open>_s(\d+)_\<close> matched at the start of \<open>s\<close>: the group.\<close>

definition match_s_number :: "string \<Rightarrow> string option" where
  "match_s_number s =
     (let rest = drop 2 s; d = takeWhile isdigit rest in
      if startswith s ''_s'' \<and> d \<noteq> [] \<and> startswith (dropWhile isdigit rest) ''_''
      then Some d else None)"

text \<open>\<open>re.search\<close>: the match at the leftmost position that has one.\<close>

fun re_search :: "(string \<Rightarrow> 'a option) \<Rightarrow> string \<Rightarrow> 'a option" where
  "re_search m [] = m []"
| "re_search m (c # cs) = (case m (c # cs) of Some r \<Rightarrow> Some r | None \<Rightarrow> re_search m cs)"

text \<open>\<open>re.sub(r'^\d+_\d+_', '', s)\<close>: without the MULTILINE flag \<open>^\<close> is the start of \<open>s\<close>.\<close>

definition sub_rank_prefix :: "string \<Rightarrow> string" where
  "sub_rank_prefix s =
     (let d1 = takeWhile isdigit s; r1 = dropWhile isdigit s;
          d2 = takeWhile isdigit (drop 1 r1); r2 = dropWhile isdigit (drop 1 r1)
      in if d1 \<noteq> [] \<and> startswith r1 ''_'' \<and> d2 \<noteq> [] \<and> startswith r2 ''_''
         then drop 1 r2 else s)"

text \<open>
  \<open>.*$\<close> from the start of \<open>s\<close>: \<open>.\<close> stops at a newline and \<open>$\<close> holds at the end of the
  string or before a newline that ends it, so the rest of the string matches when it has
  no newline but possibly a last one, which stays.
\<close>

definition to_end_of_line :: "string \<Rightarrow> bool" where
  "to_end_of_line s = (let r = dropWhile (\<lambda>c. c \<noteq> newline) s in r = [] \<or> r = [newline])"

text \<open>
  \<open>re.sub(head + r'.*$', '', s)\<close> where \<open>hd_match\<close> says whether \<open>head\<close> matches at the start
  of a string: the leftmost match is removed, up to the end of the string or to its last
  newline; nothing after it can match again.
\<close>

fun sub_to_end :: "(string \<Rightarrow> bool) \<Rightarrow> string \<Rightarrow> string" where
  "sub_to_end hd_match [] = []"
| "sub_to_end hd_match (c # cs) =
     (if hd_match (c # cs) \<and> to_end_of_line (c # cs)
      then dropWhile (\<lambda>x. x \<noteq> newline) (c # cs)
      else c # sub_to_end hd_match cs)"

text \<open>The heads \<open>_model\d+\<close> and \<open>_aligned\<close>.\<close>

definition model_head :: "string \<Rightarrow> bool" where
  "model_head s = (startswith s ''_model'' \<and> (case drop 6 s of [] \<Rightarrow> False | d # r \<Rightarrow> isdigit d))"

definition aligned_head :: "string \<Rightarrow> bool" where
  "aligned_head s = startswith s ''_aligned''"

section \<open>Rank Join and Tagging (6.ranking\_batch1.2.py)\<close>

text \<open>A Python dictionary is an association list in insertion order: assigning to a key
  that is present replaces its value in place (\<open>AList.update\<close>).\<close>

type_synonym rankings = "(string \<times> nat) list"

definition extract_identifier :: "string \<Rightarrow> string option" where
  "extract_identifier filename = re_search match_identifier filename"

text \<open>
  Lines 48-53 and 78-82: the loop over the rows of a table, each with its rank.  An empty
  \<open>Design\<close> cell and a name without identifier are passed over.
\<close>

definition rankings_of_rows :: "(nat \<times> nat \<times> 'm row) list \<Rightarrow> rankings \<Rightarrow> rankings" where
  "rankings_of_rows ranked d =
     fold (\<lambda>(rank, i, r) d.
             case Design r of
               None \<Rightarrow> d
             | Some name \<Rightarrow> (case extract_identifier name of
                               None \<Rightarrow> d
                             | Some identifier \<Rightarrow> AList.update identifier rank d))
          ranked d"

text \<open>
  What \<open>get_file_rankings\<close> finds in \<open>./stats\<close>: the master file, absent or with what
  \<open>pd.read_csv\<close> does on it, and the files \<open>merged_*_stats.csv\<close> in \<open>glob\<close> order.  An
  exception of \<open>pd.read_csv\<close> is not caught: it ends the script.
\<close>

record 'm stats_files =
  master_file :: "(string + 'm dataframe) option"
  merged_files :: "'m csv_file list"

definition master_file_name :: string where
  "master_file_name = ''merged_all_final_design_stats.csv''"

text \<open>Lines 59-82: the loop over the per-subfolder files.\<close>

fun individual_loop ::
  "'m csv_file list \<Rightarrow> (string \<times> rankings) list \<Rightarrow> py_error + (string \<times> rankings) list" where
  "individual_loop [] ind = Inr ind"
| "individual_loop ((filename, res) # fs) ind =
     (if filename = master_file_name then individual_loop fs ind
      else case res of
        Inl e \<Rightarrow> Inl (ReadCsvError e)
      | Inr df \<Rightarrow>
          if ''Design'' \<notin> set (columns df) then individual_loop fs ind
          else
            let subfolder_name = str_replace ''_stats.csv'' [] (str_replace ''merged_'' [] filename);
                old = (case map_of ind subfolder_name of None \<Rightarrow> [] | Some d \<Rightarrow> d)
            in individual_loop fs
                 (AList.update subfolder_name (rankings_of_rows (assign_rank (rows df)) old) ind))"

definition get_file_rankings ::
  "'m stats_files \<Rightarrow> py_error + ((string \<times> rankings) list \<times> rankings)" where
  "get_file_rankings st =
     (case master_file st of
        None \<Rightarrow> Inr ([], [])
      | Some (Inl e) \<Rightarrow> Inl (ReadCsvError e)
      | Some (Inr mdf) \<Rightarrow>
          if ''Design'' \<notin> set (columns mdf) then Inr ([], [])
          else
            let master_rankings = rankings_of_rows (assign_rank (rows mdf)) [] in
            case individual_loop (merged_files st) [] of
              Inl e \<Rightarrow> Inl e
            | Inr individual_rankings \<Rightarrow> Inr (individual_rankings, master_rankings))"

text \<open>Lines 104-113: the path component before the first \<open>pooled\<close> that is not the first.\<close>

fun part_before_pooled :: "string list \<Rightarrow> string option" where
  "part_before_pooled (a # b # ps) =
     (if b = ''pooled'' then Some a else part_before_pooled (b # ps))"
| "part_before_pooled ps = None"

definition extract_mother_folder_name :: "string \<Rightarrow> string option" where
  "extract_mother_folder_name pdb_path = part_before_pooled (path_parts pdb_path)"

text \<open>
  The files of the tree are a map from paths to contents.  Lines 115-132: every file
  that lies directly in a directory \<open>root/podium\<close> is removed, for the roots of
  \<open>os.walk(".")\<close> that end with \<open>pooled/aligned\<close> or contain \<open>/pooled/aligned\<close>.
\<close>

definition in_cleared_podium :: "string \<Rightarrow> bool" where
  "in_cleared_podium path =
     (let d = dirname path; root = take (length d - 7) d in
      endswith d ''/podium'' \<and> startswith root ''./'' \<and>
      (endswith root ''pooled/aligned'' \<or> str_in ''/pooled/aligned'' root))"

definition clear_podium_directories :: "(string \<rightharpoonup> 'c) \<Rightarrow> (string \<rightharpoonup> 'c)" where
  "clear_podium_directories fs = (\<lambda>path. if in_cleared_podium path then None else fs path)"

datatype report =
    NoMotherFolder string
  | NoIdentifier string
  | RankingsNotFound string string "nat option" "nat option"
  | Overwritten string string string
  | Copied string string string
  | NoRankingsFound
  | NoPdbFiles

record 'c join_state =
  files :: "string \<rightharpoonup> 'c"
  copied_files :: nat
  skipped_files :: nat
  overwritten_files :: nat
  reports :: "report list"

text \<open>Lines 187-192: the two lookups.\<close>

definition individual_lookup :: "(string \<times> rankings) list \<Rightarrow> string \<Rightarrow> string \<Rightarrow> nat option" where
  "individual_lookup individual_rankings mother_folder identifier =
     (case map_of individual_rankings mother_folder of
        None \<Rightarrow> None
      | Some d \<Rightarrow> map_of d identifier)"

definition podium_name :: "nat \<Rightarrow> nat \<Rightarrow> string \<Rightarrow> string" where
  "podium_name individual_rank master_rank pdb_filename =
     str_of_nat individual_rank @ ''_'' @ str_of_nat master_rank @ ''_'' @ pdb_filename"

definition podium_path :: "string \<Rightarrow> nat \<Rightarrow> nat \<Rightarrow> string" where
  "podium_path pdb_path individual_rank master_rank =
     path_join (path_join (dirname pdb_path) ''podium'')
       (podium_name individual_rank master_rank (basename pdb_path))"

text \<open>
  Lines 170-220: the body of the loop over the files found.  \<open>content\<close> gives the bytes of
  the files found, which the script only reads.
\<close>

definition process_pdb ::
  "(string \<times> rankings) list \<Rightarrow> rankings \<Rightarrow> (string \<Rightarrow> 'c) \<Rightarrow> string \<Rightarrow> 'c join_state \<Rightarrow>
   'c join_state" where
  "process_pdb individual_rankings master_rankings content pdb_path st =
     (case extract_mother_folder_name pdb_path of
        None \<Rightarrow> st\<lparr>skipped_files := skipped_files st + 1,
                   reports := reports st @ [NoMotherFolder pdb_path]\<rparr>
      | Some mother_folder \<Rightarrow>
          let pdb_filename = basename pdb_path in
          case extract_identifier pdb_filename of
            None \<Rightarrow> st\<lparr>skipped_files := skipped_files st + 1,
                       reports := reports st @ [NoIdentifier pdb_filename]\<rparr>
          | Some identifier \<Rightarrow>
              let individual_rank = individual_lookup individual_rankings mother_folder identifier;
                  master_rank = map_of master_rankings identifier
              in case (individual_rank, master_rank) of
                   (Some ir, Some mr) \<Rightarrow>
                     let new_filename = podium_name ir mr pdb_filename;
                         dest_path = podium_path pdb_path ir mr;
                         file_existed = (files st dest_path \<noteq> None)
                     in st\<lparr>files := (files st)(dest_path \<mapsto> content pdb_path),
                           copied_files := copied_files st + 1,
                           overwritten_files :=
                             (if file_existed then overwritten_files st + 1
                              else overwritten_files st),
                           reports := reports st @
                             [if file_existed then Overwritten pdb_filename identifier new_filename
                              else Copied pdb_filename identifier new_filename]\<rparr>
                 | _ \<Rightarrow> st\<lparr>skipped_files := skipped_files st + 1,
                           reports := reports st @
                             [RankingsNotFound identifier pdb_filename individual_rank master_rank]\<rparr>)"

text \<open>
  Lines 134-226: the stage.  \<open>pdb_files\<close> is what \<open>find_corresponding_pdb_files\<close> returns.
  The result is the exception that ended the run, if any, and the files left.
\<close>

definition copy_files_with_rankings ::
  "'m stats_files \<Rightarrow> string list \<Rightarrow> (string \<Rightarrow> 'c) \<Rightarrow> (string \<rightharpoonup> 'c) \<Rightarrow>
   py_error option \<times> 'c join_state" where
  "copy_files_with_rankings st pdb_files content fs =
     (let start = \<lparr>files = clear_podium_directories fs, copied_files = 0, skipped_files = 0,
                   overwritten_files = 0, reports = []\<rparr>
      in case get_file_rankings st of
           Inl e \<Rightarrow> (Some e, start)
         | Inr (individual_rankings, master_rankings) \<Rightarrow>
             if master_rankings = [] \<and> individual_rankings = []
             then (None, start\<lparr>reports := [NoRankingsFound]\<rparr>)
             else if pdb_files = [] then (None, start\<lparr>reports := [NoPdbFiles]\<rparr>)
             else (None, fold (process_pdb individual_rankings master_rankings content)
                           pdb_files start))"


section \<open>Duplicate Resolution (9\_exluding\_doublets.py)\<close>

definition extract_s_number :: "string \<Rightarrow> string option" where
  "extract_s_number filename = re_search match_s_number filename"

text \<open>
  Lines 16-32.  \<open>k in master_rankings\<close> is membership among the keys.  The message printed
  when the substitution is used is left out.
\<close>

definition normalize_name :: "string \<Rightarrow> string" where
  "normalize_name filename =
     sub_to_end aligned_head (sub_to_end model_head (sub_rank_prefix (fst (splitext filename))))"

definition extract_core_identifier_with_ag1_fallback :: "string \<Rightarrow> rankings \<Rightarrow> string" where
  "extract_core_identifier_with_ag1_fallback filename master_rankings =
     (let base_name = normalize_name filename in
      if map_of master_rankings base_name \<noteq> None then base_name
      else
        let alt_name = str_replace ''_ag1_'' ''_7_'' base_name in
        if str_in ''_ag1_'' base_name \<and> map_of master_rankings alt_name \<noteq> None then alt_name
        else base_name)"

text \<open>Lines 51-56: the loop over the rows of the master table, each with its rank.\<close>

definition design_rankings :: "(nat \<times> nat \<times> 'm row) list \<Rightarrow> rankings" where
  "design_rankings ranked =
     fold (\<lambda>(rank, i, r) d.
             case Design r of
               None \<Rightarrow> d
             | Some name \<Rightarrow> AList.update (fst (splitext (str_strip name))) rank d)
          ranked []"

definition get_master_rankings :: "(string + 'm dataframe) option \<Rightarrow> py_error + rankings" where
  "get_master_rankings mf =
     (case mf of
        None \<Rightarrow> Inr []
      | Some (Inl e) \<Rightarrow> Inl (ReadCsvError e)
      | Some (Inr mdf) \<Rightarrow>
          if ''Design'' \<notin> set (columns mdf) then Inr []
          else Inr (design_rankings (assign_rank (rows mdf))))"

datatype dedup_report =
    FuzzyMatch string string nat
  | NoRankingFound string string

text \<open>Lines 65-79: the rank of one file, exact or by the first key that contains the
  identifier or is contained in it, and what is printed.\<close>

definition rank_of_file :: "rankings \<Rightarrow> string \<Rightarrow> (string \<times> nat \<times> string) option \<times> dedup_report list" where
  "rank_of_file master_rankings file_path =
     (let filename = basename file_path;
          core_identifier = extract_core_identifier_with_ag1_fallback filename master_rankings
      in case map_of master_rankings core_identifier of
           Some rank \<Rightarrow> (Some (file_path, rank, core_identifier), [])
         | None \<Rightarrow>
             (case find (\<lambda>(csv_name, csv_rank).
                           str_in csv_name core_identifier \<or> str_in core_identifier csv_name)
                        master_rankings of
                Some (csv_name, csv_rank) \<Rightarrow>
                  (Some (file_path, csv_rank, core_identifier),
                   [FuzzyMatch core_identifier csv_name csv_rank])
              | None \<Rightarrow> (None, [NoRankingFound core_identifier filename])))"

fun file_rankings_loop ::
  "rankings \<Rightarrow> string list \<Rightarrow> (string \<times> nat \<times> string) list \<times> dedup_report list" where
  "file_rankings_loop master_rankings [] = ([], [])"
| "file_rankings_loop master_rankings (f # fs) =
     (let (r, msgs) = rank_of_file master_rankings f;
          (rs, msgs') = file_rankings_loop master_rankings fs
      in ((case r of None \<Rightarrow> rs | Some x \<Rightarrow> x # rs), msgs @ msgs'))"

text \<open>
  Lines 60-88.  \<open>list.sort(key=...)\<close> is stable.  The result is the best file if any, the
  other ranked files, and what was printed.
\<close>

definition find_best_and_worst_ranked_files ::
  "string list \<Rightarrow> rankings \<Rightarrow>
   (string \<times> nat \<times> string) option \<times> (string \<times> nat \<times> string) list \<times> dedup_report list" where
  "find_best_and_worst_ranked_files fs master_rankings =
     (let (file_rankings, msgs) = file_rankings_loop master_rankings fs in
      case stable_sort (\<lambda>x y. fst (snd x) \<le> fst (snd y)) file_rankings of
        [] \<Rightarrow> (None, [], msgs)
      | best_file # worst_files \<Rightarrow> (Some best_file, worst_files, msgs))"

text \<open>
  The two output directories of one filter-cutoff directory, each a map from file names
  to contents, the two counters and what was printed.
\<close>

record 'c dedup_state =
  unique :: "string \<rightharpoonup> 'c"
  not_unique_basefold :: "string \<rightharpoonup> 'c"
  copied_unique :: nat
  copied_not_unique :: nat
  printed :: "dedup_report list"

text \<open>\<open>if not os.path.exists(dest_path): shutil.copy2(...)\<close>, into either directory.\<close>

definition copy_to_unique :: "(string \<Rightarrow> 'c) \<Rightarrow> string \<Rightarrow> 'c dedup_state \<Rightarrow> 'c dedup_state" where
  "copy_to_unique content file_path st =
     (let filename = basename file_path in
      if unique st filename = None
      then st\<lparr>unique := (unique st)(filename \<mapsto> content file_path),
              copied_unique := copied_unique st + 1\<rparr>
      else st)"

definition copy_to_not_unique :: "(string \<Rightarrow> 'c) \<Rightarrow> string \<Rightarrow> 'c dedup_state \<Rightarrow> 'c dedup_state" where
  "copy_to_not_unique content file_path st =
     (let filename = basename file_path in
      if not_unique_basefold st filename = None
      then st\<lparr>not_unique_basefold := (not_unique_basefold st)(filename \<mapsto> content file_path),
              copied_not_unique := copied_not_unique st + 1\<rparr>
      else st)"

text \<open>Lines 117-124: the groups, a \<open>defaultdict(list)\<close> in insertion order.\<close>

definition add_to_group :: "string \<Rightarrow> (string \<times> string list) list \<Rightarrow> (string \<times> string list) list" where
  "add_to_group pdb_file groups =
     (case extract_s_number (basename pdb_file) of
        None \<Rightarrow> groups
      | Some s_number \<Rightarrow>
          AList.update s_number
            ((case map_of groups s_number of None \<Rightarrow> [] | Some fs \<Rightarrow> fs) @ [pdb_file]) groups)"

definition s_number_groups :: "string list \<Rightarrow> (string \<times> string list) list" where
  "s_number_groups pdb_files = fold add_to_group pdb_files []"

text \<open>Lines 129-157: the body of the loop over the groups.\<close>

definition process_group ::
  "rankings \<Rightarrow> (string \<Rightarrow> 'c) \<Rightarrow> string \<times> string list \<Rightarrow> 'c dedup_state \<Rightarrow> 'c dedup_state" where
  "process_group master_rankings content g st =
     (case snd g of
        [file_path] \<Rightarrow> copy_to_unique content file_path st
      | fs \<Rightarrow>
          (case find_best_and_worst_ranked_files fs master_rankings of
             (None, worst_files, msgs) \<Rightarrow> st\<lparr>printed := printed st @ msgs\<rparr>
           | (Some best_file, worst_files, msgs) \<Rightarrow>
               fold (\<lambda>worst_file. copy_to_not_unique content (fst worst_file)) worst_files
                 (copy_to_unique content (fst best_file) (st\<lparr>printed := printed st @ msgs\<rparr>))))"

text \<open>
  Lines 108-160: one filter-cutoff directory.  \<open>pdb_files\<close> is the result of
  \<open>glob("*.pdb")\<close> in it; the counters start at 0.
\<close>

definition process_pooled_dir ::
  "rankings \<Rightarrow> (string \<Rightarrow> 'c) \<Rightarrow> string list \<Rightarrow> 'c dedup_state \<Rightarrow> 'c dedup_state" where
  "process_pooled_dir master_rankings content pdb_files st =
     fold (process_group master_rankings content) (s_number_groups pdb_files)
       (st\<lparr>copied_unique := 0, copied_not_unique := 0\<rparr>)"

definition pooled_dirs :: "string list" where
  "pooled_dirs = [''filtered_pdbs_jc_5.0A'', ''filtered_pdbs_jc_5.5A'', ''filtered_pdbs_jc_6.0A'']"

text \<open>
  Lines 90-160.  \<open>listing d\<close> is \<open>None\<close> when \<open>./selection/d\<close> does not exist and the result
  of \<open>glob\<close> in it otherwise; the state gives the output directories of every
  filter-cutoff directory.  The result is the exception that ended the run, if any, and
  the new state.
\<close>

definition process_duplicates ::
  "(string + 'm dataframe) option \<Rightarrow> (string \<Rightarrow> string list option) \<Rightarrow> (string \<Rightarrow> 'c) \<Rightarrow>
   (string \<Rightarrow> 'c dedup_state) \<Rightarrow> py_error option \<times> (string \<Rightarrow> 'c dedup_state)" where
  "process_duplicates mf listing content sel =
     (case get_master_rankings mf of
        Inl e \<Rightarrow> (Some e, sel)
      | Inr master_rankings \<Rightarrow>
          if master_rankings = [] then (None, sel)
          else (None,
                fold (\<lambda>pooled_dir sel.
                        case listing pooled_dir of
                          None \<Rightarrow> sel
                        | Some pdb_files \<Rightarrow>
                            sel(pooled_dir :=
                                  process_pooled_dir master_rankings content pdb_files
                                    (sel pooled_dir)))
                     pooled_dirs sel))"

text \<open>
  Lines 162-178: \<open>main\<close>, after the command line is parsed.  Without \<open>--auto-confirm\<close>
  the line read from the terminal decides whether anything is done; \<open>answer\<close> is that
  line, or \<open>None\<close> when the input is at its end and \<open>input()\<close> raises.
\<close>

definition dedup_main ::
  "bool \<Rightarrow> string option \<Rightarrow> (string + 'm dataframe) option \<Rightarrow> (string \<Rightarrow> string list option) \<Rightarrow>
   (string \<Rightarrow> 'c) \<Rightarrow> (string \<Rightarrow> 'c dedup_state) \<Rightarrow> py_error option \<times> (string \<Rightarrow> 'c dedup_state)" where
  "dedup_main auto_confirm answer mf listing content sel =
     (if auto_confirm then process_duplicates mf listing content sel
      else case answer of
             None \<Rightarrow> (Some EOFError, sel)
           | Some line \<Rightarrow>
               let response = str_strip (str_lower line) in
               if response \<notin> {''y'', ''yes''} then (None, sel)
               else process_duplicates mf listing content sel)"


section \<open>Definitions used by the properties\<close>

text \<open>
  The order a stable sort leaves between two labelled elements, the first one earlier in
  the result: it is not after the second one in the sort order and, when the two are
  tied, it has the smaller label.
\<close>

definition stable_order :: "('a \<Rightarrow> 'a \<Rightarrow> bool) \<Rightarrow> (nat \<times> 'a) \<Rightarrow> (nat \<times> 'a) \<Rightarrow> bool" where
  "stable_order le x y = (le (snd x) (snd y) \<and> (le (snd y) (snd x) \<longrightarrow> fst x < fst y))"

text \<open>
  What is known of the single-column sort of the library: its result is a rearrangement
  of the rows that is sorted on the column.
\<close>

definition sorts_single_key :: "'m::linorder single_key_sort \<Rightarrow> bool" where
  "sorts_single_key qs =
     (\<forall>k xs. mset (qs k xs) = mset xs \<and>
             sorted_wrt (\<lambda>a b. lex_le [k] (snd a) (snd b)) (qs k xs))"

text \<open>A sort of that kind that does not keep the order of ties: it reverses it.\<close>

definition reverse_ties_sort :: "'m::linorder single_key_sort" where
  "reverse_ties_sort k xs = stable_sort (\<lambda>a b. lex_le [k] (snd a) (snd b)) (rev xs)"

text \<open>An example: one subfolder with two score files of two rows each.\<close>

definition score_row :: "string \<Rightarrow> int \<Rightarrow> int \<Rightarrow> int row" where
  "score_row d p e =
     \<lparr>Design = Some d, Average_i_pTM = Num p, Average_i_pAE = Num e,
      source_subfolder = None, source_file = None\<rparr>"

definition example_stats :: "int stats_dir" where
  "example_stats =
     \<lparr>subdirs =
        [(''run1'',
          [(''b.csv'', Inr \<lparr>columns = [''Design'', ''Average_i_pTM'', ''Average_i_pAE''],
                            rows = [(0, score_row ''d1'' 5 3), (1, score_row ''d2'' 7 3)]\<rparr>),
           (''a.csv'', Inr \<lparr>columns = [''Design'', ''Average_i_pTM'', ''Average_i_pAE''],
                            rows = [(0, score_row ''d3'' 5 3), (1, score_row ''d4'' 7 2)]\<rparr>)])],
      direct_files = []\<rparr>"

definition example_pair :: "int dataframe \<times> int dataframe" where
  "example_pair = hd (ranked_pairs (aggregate reverse_ties_sort example_stats))"

text \<open>An example: one score file with the primary metric only, and two rows that tie.\<close>

definition tie_stats :: "int stats_dir" where
  "tie_stats =
     \<lparr>subdirs =
        [(''run1'',
          [(''a.csv'', Inr \<lparr>columns = [''Design'', ''Average_i_pTM''],
                            rows = [(0, \<lparr>Design = Some ''d1'', Average_i_pTM = Num 5,
                                         Average_i_pAE = NaN, source_subfolder = None,
                                         source_file = None\<rparr>),
                                    (1, \<lparr>Design = Some ''d2'', Average_i_pTM = Num 5,
                                         Average_i_pAE = NaN, source_subfolder = None,
                                         source_file = None\<rparr>)]\<rparr>)])],
      direct_files = []\<rparr>"

definition tie_pair :: "int dataframe \<times> int dataframe" where
  "tie_pair = hd (ranked_pairs (aggregate reverse_ties_sort tie_stats))"






text \<open>
  The join identifier of a row of the master table, as Rank Join and as Duplicate
  Resolution derive it from the \<open>Design\<close> cell.
\<close>

definition row_identifier :: "'m row \<Rightarrow> string option" where
  "row_identifier r = (case Design r of None \<Rightarrow> None | Some name \<Rightarrow> extract_identifier name)"

definition row_design_name :: "'m row \<Rightarrow> string option" where
  "row_design_name r =
     (case Design r of None \<Rightarrow> None | Some name \<Rightarrow> Some (fst (splitext (str_strip name))))"

text \<open>The loop that fills a rank dictionary, for any way to derive the key of a row.\<close>

definition rank_dict ::
  "('m row \<Rightarrow> string option) \<Rightarrow> (nat \<times> nat \<times> 'm row) list \<Rightarrow> rankings \<Rightarrow> rankings" where
  "rank_dict key ranked d =
     fold (\<lambda>(rank, i, r) d. case key r of None \<Rightarrow> d | Some k \<Rightarrow> AList.update k rank d) ranked d"

text \<open>An example: a master table whose first and last row have the same identifier.\<close>

definition duplicate_rows :: "int dataframe" where
  "duplicate_rows =
     \<lparr>columns = [''Design'', ''Average_i_pTM'', ''Average_i_pAE''],
      rows = [(0, score_row ''run_s1_mpnn2'' 9 1),
              (1, score_row ''other_s7_mpnn1'' 8 1),
              (2, score_row ''run_s1_mpnn2.pdb'' 7 1)]\<rparr>"

text \<open>The ranking tables of a run whose master table and only subfolder table are that table.\<close>

definition duplicate_stats_files :: "int stats_files" where
  "duplicate_stats_files =
     \<lparr>master_file = Some (Inr duplicate_rows),
      merged_files = [(''merged_run_stats.csv'', Inr duplicate_rows)]\<rparr>"

text \<open>The rank Duplicate Resolution finds for a file, if any.\<close>

definition resolved_rank :: "rankings \<Rightarrow> string \<Rightarrow> nat option" where
  "resolved_rank master_rankings file_path =
     map_option (\<lambda>x. fst (snd x)) (fst (rank_of_file master_rankings file_path))"

text \<open>
  A directory after the files \<open>ps\<close> were copied into it in this order, each under its
  base name and only when no file of that name was there.
\<close>

definition copy_absent :: "(string \<Rightarrow> 'c) \<Rightarrow> string list \<Rightarrow> (string \<rightharpoonup> 'c) \<Rightarrow> (string \<rightharpoonup> 'c)" where
  "copy_absent content ps m =
     (\<lambda>n. case m n of
             Some c \<Rightarrow> Some c
           | None \<Rightarrow> map_option content (find (\<lambda>p. basename p = n) ps))"

text \<open>
  The file of a group with several members that is copied to \<open>unique\<close>, and the files
  the loop over a group copies into either directory.
\<close>

definition canonical_file :: "rankings \<Rightarrow> string list \<Rightarrow> string option" where
  "canonical_file master_rankings fs =
     map_option fst (fst (find_best_and_worst_ranked_files fs master_rankings))"

definition unique_targets :: "rankings \<Rightarrow> string \<times> string list \<Rightarrow> string list" where
  "unique_targets master_rankings g =
     (case snd g of
        [file_path] \<Rightarrow> [file_path]
      | fs \<Rightarrow> (case fst (find_best_and_worst_ranked_files fs master_rankings) of
                 None \<Rightarrow> [] | Some best_file \<Rightarrow> [fst best_file]))"

definition not_unique_targets :: "rankings \<Rightarrow> string \<times> string list \<Rightarrow> string list" where
  "not_unique_targets master_rankings g =
     (case snd g of
        [file_path] \<Rightarrow> []
      | fs \<Rightarrow> map fst (fst (snd (find_best_and_worst_ranked_files fs master_rankings))))"

text \<open>
  An example: a group of three files, the last of which has no rank, and empty output
  directories.  The contents of a file stand as its path.
\<close>

definition example_rankings :: rankings where
  "example_rankings = [(''a_s1_x'', 1), (''b_s1_y'', 2)]"

definition example_group :: "string list" where
  "example_group =
     [''./selection/filtered_pdbs_jc_5.0A/b_s1_y_model1.pdb'',
      ''./selection/filtered_pdbs_jc_5.0A/a_s1_x_model1.pdb'',
      ''./selection/filtered_pdbs_jc_5.0A/zzz_s1_q.pdb'']"

definition empty_dirs :: "string dedup_state" where
  "empty_dirs =
     \<lparr>unique = Map.empty, not_unique_basefold = Map.empty, copied_unique = 0,
      copied_not_unique = 0, printed = []\<rparr>"

text \<open>
  The two ranks Rank Join finds for a file, when the mother folder, the identifier and
  both lookups are there; the path it then writes; the message it prints otherwise.
\<close>

definition lookups :: "(string \<times> rankings) list \<Rightarrow> rankings \<Rightarrow> string \<Rightarrow> (nat \<times> nat) option" where
  "lookups individual_rankings master_rankings pdb_path =
     (case extract_mother_folder_name pdb_path of
        None \<Rightarrow> None
      | Some mother_folder \<Rightarrow>
          (case extract_identifier (basename pdb_path) of
             None \<Rightarrow> None
           | Some identifier \<Rightarrow>
               (case (individual_lookup individual_rankings mother_folder identifier,
                      map_of master_rankings identifier) of
                  (Some ir, Some mr) \<Rightarrow> Some (ir, mr)
                | _ \<Rightarrow> None)))"

definition podium_dest :: "(string \<times> rankings) list \<Rightarrow> rankings \<Rightarrow> string \<Rightarrow> string option" where
  "podium_dest individual_rankings master_rankings pdb_path =
     map_option (\<lambda>(ir, mr). podium_path pdb_path ir mr)
       (lookups individual_rankings master_rankings pdb_path)"

definition skip_report :: "(string \<times> rankings) list \<Rightarrow> rankings \<Rightarrow> string \<Rightarrow> report" where
  "skip_report individual_rankings master_rankings pdb_path =
     (case extract_mother_folder_name pdb_path of
        None \<Rightarrow> NoMotherFolder pdb_path
      | Some mother_folder \<Rightarrow>
          (case extract_identifier (basename pdb_path) of
             None \<Rightarrow> NoIdentifier (basename pdb_path)
           | Some identifier \<Rightarrow>
               RankingsNotFound identifier (basename pdb_path)
                 (individual_lookup individual_rankings mother_folder identifier)
                 (map_of master_rankings identifier)))"

text \<open>
  What a run of the loop writes: at a path, the contents of the last file found that is
  copied to it.
\<close>

definition podium_writes ::
  "(string \<times> rankings) list \<Rightarrow> rankings \<Rightarrow> (string \<Rightarrow> 'c) \<Rightarrow> string list \<Rightarrow> (string \<rightharpoonup> 'c)" where
  "podium_writes individual_rankings master_rankings content pdb_files =
     (\<lambda>q. map_option content
            (find (\<lambda>p. podium_dest individual_rankings master_rankings p = Some q)
                  (rev pdb_files)))"

text \<open>What a run of the stage writes, which does not depend on the files already there.\<close>

definition join_writes :: "'m stats_files \<Rightarrow> string list \<Rightarrow> (string \<Rightarrow> 'c) \<Rightarrow> (string \<rightharpoonup> 'c)" where
  "join_writes st pdb_files content =
     (case get_file_rankings st of
        Inl e \<Rightarrow> Map.empty
      | Inr (individual_rankings, master_rankings) \<Rightarrow>
          if master_rankings = [] \<and> individual_rankings = [] then Map.empty
          else podium_writes individual_rankings master_rankings content pdb_files)"

text \<open>
  An example: a master table and the table of subfolder \<open>v1\<close>, and two files found, the
  second without rank.
\<close>

definition example_table :: "int dataframe" where
  "example_table =
     \<lparr>columns = [''Design'', ''Average_i_pTM'', ''Average_i_pAE''],
      rows = [(0, score_row ''v1_s1_mpnn2_model1'' 9 1),
              (1, score_row ''v1_s7_mpnn1_model1'' 8 1)]\<rparr>"

definition example_stats_files :: "int stats_files" where
  "example_stats_files =
     \<lparr>master_file = Some (Inr example_table),
      merged_files = [(''merged_all_final_design_stats.csv'', Inr example_table),
                      (''merged_v1_stats.csv'', Inr example_table)]\<rparr>"

definition example_pdbs :: "string list" where
  "example_pdbs =
     [''./v1/pooled/aligned/filtered_pdbs_jc_5.0A/v1_s7_mpnn1_model1.pdb'',
      ''./v1/pooled/aligned/filtered_pdbs_jc_5.0A/v1_s9_mpnn1_model1.pdb'']"




text \<open>A \<open>stats\<close> directory with one score file whose metric cells are text.\<close>

definition text_stats :: "int stats_dir" where
  "text_stats =
     \<lparr>subdirs =
        [(''run1'',
          [(''a.csv'', Inr \<lparr>columns = [''Design'', ''Average_i_pTM'', ''Average_i_pAE''],
                            rows = [(0, \<lparr>Design = Some ''d1'', Average_i_pTM = Text ''high'',
                                         Average_i_pAE = Text ''low'', source_subfolder = None,
                                         source_file = None\<rparr>)]\<rparr>)])],
      direct_files = []\<rparr>"

section \<open>Properties of the Score Aggregator\<close>

subsection \<open>The stable sort\<close>

lemma set_insert_stable: "set (insert_stable le x ys) = insert x (set ys)"
  by (induction ys) auto

lemma mset_insert_stable: "mset (insert_stable le x ys) = add_mset x (mset ys)"
  by (induction ys) auto

lemma mset_stable_sort: "mset (stable_sort le xs) = mset xs"
  by (induction xs) (auto simp: mset_insert_stable)

lemma set_stable_sort: "set (stable_sort le xs) = set xs"
  by (metis mset_stable_sort set_mset_mset)

lemma length_stable_sort: "length (stable_sort le xs) = length xs"
  by (metis mset_stable_sort size_mset)

lemma insert_stable_order:
  assumes tot: "\<And>a b. le a b \<or> le b a"
    and tr: "\<And>a b c. le a b \<Longrightarrow> le b c \<Longrightarrow> le a c"
    and "sorted_wrt (stable_order le) ys"
    and "\<forall>y\<in>set ys. fst x < fst y"
  shows "sorted_wrt (stable_order le) (insert_stable (\<lambda>a b. le (snd a) (snd b)) x ys)"
  using assms(3,4)
proof (induction ys)
  case Nil
  then show ?case by simp
next
  case (Cons y ys)
  show ?case
  proof (cases "le (snd x) (snd y)")
    case True
    have "stable_order le x z" if "z \<in> set (y # ys)" for z
    proof -
      have "le (snd y) (snd z)"
        using that Cons.prems(1) tot[of "snd y" "snd y"] by (auto simp: stable_order_def)
      then have "le (snd x) (snd z)" using True tr by blast
      moreover have "fst x < fst z" using that Cons.prems(2) by auto
      ultimately show ?thesis by (simp add: stable_order_def)
    qed
    then show ?thesis using True Cons.prems(1) by auto
  next
    case False
    then have yx: "le (snd y) (snd x)" using tot by blast
    have "stable_order le y x" using False yx by (simp add: stable_order_def)
    moreover have "sorted_wrt (stable_order le) (insert_stable (\<lambda>a b. le (snd a) (snd b)) x ys)"
      using Cons by auto
    ultimately show ?thesis using False Cons.prems(1) by (auto simp: set_insert_stable)
  qed
qed

lemma stable_sort_order:
  assumes tot: "\<And>a b. le a b \<or> le b a"
    and tr: "\<And>a b c. le a b \<Longrightarrow> le b c \<Longrightarrow> le a c"
    and "sorted_wrt (<) (map fst xs)"
  shows "sorted_wrt (stable_order le) (stable_sort (\<lambda>a b. le (snd a) (snd b)) xs)"
  using assms(3)
proof (induction xs)
  case Nil
  then show ?case by simp
next
  case (Cons x xs)
  have "\<forall>y\<in>set (stable_sort (\<lambda>a b. le (snd a) (snd b)) xs). fst x < fst y"
    using Cons.prems by (auto simp: set_stable_sort)
  moreover have "sorted_wrt (stable_order le) (stable_sort (\<lambda>a b. le (snd a) (snd b)) xs)"
    using Cons by simp
  ultimately have "sorted_wrt (stable_order le)
      (insert_stable (\<lambda>a b. le (snd a) (snd b)) x (stable_sort (\<lambda>a b. le (snd a) (snd b)) xs))"
    by (intro insert_stable_order tot) (auto intro: tr)
  then show ?case by simp
qed

lemma insert_stable_sorted:
  assumes tot: "\<And>a b. le a b \<or> le b a"
    and tr: "\<And>a b c. le a b \<Longrightarrow> le b c \<Longrightarrow> le a c"
  shows "sorted_wrt le ys \<Longrightarrow> sorted_wrt le (insert_stable le x ys)"
proof (induction ys)
  case Nil
  then show ?case by simp
next
  case (Cons y ys)
  show ?case
  proof (cases "le x y")
    case True
    have "le x z" if "z \<in> set ys" for z
    proof -
      have "le y z" using that Cons.prems by auto
      then show ?thesis using True tr by blast
    qed
    then show ?thesis using True Cons.prems by simp
  next
    case False
    then have "le y x" using tot by blast
    then show ?thesis using False Cons by (auto simp: set_insert_stable)
  qed
qed

lemma stable_sort_sorted:
  assumes tot: "\<And>a b. le a b \<or> le b a"
    and tr: "\<And>a b c. le a b \<Longrightarrow> le b c \<Longrightarrow> le a c"
  shows "sorted_wrt le (stable_sort le xs)"
proof (induction xs)
  case Nil
  then show ?case by simp
next
  case (Cons x xs)
  have "sorted_wrt le (insert_stable le x (stable_sort le xs))"
    using Cons by (intro insert_stable_sorted tot) (auto intro: tr)
  then show ?case by simp
qed

subsection \<open>Ranks are positions\<close>

lemma assign_rank_nth:
  "(r, e) \<in> set (assign_rank xs) \<longleftrightarrow> (\<exists>p < length xs. r = Suc p \<and> e = xs ! p)"
proof
  assume "(r, e) \<in> set (assign_rank xs)"
  then obtain n where "n < length xs" "[1..<Suc (length xs)] ! n = r" "xs ! n = e"
    unfolding assign_rank_def by (auto simp: in_set_zip simp del: upt_Suc)
  then show "\<exists>p < length xs. r = Suc p \<and> e = xs ! p"
    by (auto simp del: upt_Suc)
next
  assume "\<exists>p < length xs. r = Suc p \<and> e = xs ! p"
  then obtain p where p: "p < length xs" "r = Suc p" "e = xs ! p" by blast
  then have "[1..<Suc (length xs)] ! p = r" by (simp del: upt_Suc)
  then have "zip [1..<Suc (length xs)] xs ! p = (r, e)"
    using p by (simp del: upt_Suc)
  moreover have "p < length (zip [1..<Suc (length xs)] xs)"
    using p by (simp del: upt_Suc)
  ultimately show "(r, e) \<in> set (assign_rank xs)"
    unfolding assign_rank_def by (metis nth_mem)
qed

lemma ranks_of_stable_order:
  assumes tot: "\<And>a b. le a b \<or> le b a"
    and srt: "sorted_wrt (stable_order le) out"
    and ei: "(ri, i, a) \<in> set (assign_rank out)"
    and ej: "(rj, j, b) \<in> set (assign_rank out)"
  shows "(\<not> le b a \<longrightarrow> ri < rj) \<and> (le a b \<and> i < j \<longrightarrow> ri < rj)"
proof -
  obtain p where p: "p < length out" "ri = Suc p" "out ! p = (i, a)"
    using ei by (auto simp: assign_rank_nth)
  obtain q where q: "q < length out" "rj = Suc q" "out ! q = (j, b)"
    using ej by (auto simp: assign_rank_nth)
  have qp: "q < p \<Longrightarrow> stable_order le (j, b) (i, a)"
    using srt p q by (metis sorted_wrt_nth_less)
  show ?thesis
  proof (cases "p < q")
    case True
    then show ?thesis using p q by simp
  next
    case False
    show ?thesis
    proof (cases "p = q")
      case True
      then have "i = j" "a = b" using p q by auto
      then show ?thesis using tot[of b b] by auto
    next
      case False
      then have "q < p" using \<open>\<not> p < q\<close> by simp
      then show ?thesis using qp by (auto simp: stable_order_def)
    qed
  qed
qed

subsection \<open>The order of the rows\<close>

lemma cell_before_linear: "cell_before asc a b \<or> a = b \<or> cell_before asc b a"
  by (cases a; cases b) auto

lemma cell_before_asym: "cell_before asc a b \<Longrightarrow> \<not> cell_before asc b a"
  by (cases a; cases b) (auto split: if_splits)

lemma cell_before_trans: "cell_before asc a b \<Longrightarrow> cell_before asc b c \<Longrightarrow> cell_before asc a c"
  by (cases a; cases b; cases c) (auto split: if_splits)

lemma lex_le_total: "lex_le ks r s \<or> lex_le ks s r"
  by (induction ks r s rule: lex_le.induct) auto

lemma lex_le_trans: "lex_le ks r s \<Longrightarrow> lex_le ks s t \<Longrightarrow> lex_le ks r t"
proof (induction ks)
  case Nil
  then show ?case by simp
next
  case (Cons k ks)
  obtain c asc where k: "k = (c, asc)" by (cases k)
  show ?case
    using Cons cell_before_linear[of asc "metric c r" "metric c s"]
      cell_before_linear[of asc "metric c s" "metric c t"]
      cell_before_trans[of asc "metric c r" "metric c s" "metric c t"]
      cell_before_asym[of asc "metric c r" "metric c s"]
      cell_before_asym[of asc "metric c s" "metric c t"]
      cell_before_asym[of asc "metric c r" "metric c t"]
    unfolding k
    by (auto split: if_splits)
qed

lemma reverse_ties_sort_sorts: "sorts_single_key reverse_ties_sort"
proof -
  have "sorted_wrt (\<lambda>a b. lex_le [k] (snd a) (snd b)) (reverse_ties_sort k xs)"
    for k :: "string \<times> bool" and xs :: "(nat \<times> 'a row) list"
    unfolding reverse_ties_sort_def
  proof (rule stable_sort_sorted)
    show "lex_le [k] (snd a) (snd b) \<or> lex_le [k] (snd b) (snd a)" for a b :: "nat \<times> 'a row"
      by (rule lex_le_total)
    show "lex_le [k] (snd a) (snd b) \<Longrightarrow> lex_le [k] (snd b) (snd c) \<Longrightarrow>
          lex_le [k] (snd a) (snd c)" for a b c :: "nat \<times> 'a row"
      by (rule lex_le_trans)
  qed
  moreover have "mset (reverse_ties_sort k xs) = mset xs"
    for k :: "string \<times> bool" and xs :: "(nat \<times> 'a row) list"
    by (simp add: reverse_ties_sort_def mset_stable_sort)
  ultimately show ?thesis unfolding sorts_single_key_def by blast
qed

lemma ranks_of_sorted:
  assumes tot: "\<And>a b. le a b \<or> le b a"
    and srt: "sorted_wrt (\<lambda>x y. le (snd x) (snd y)) out"
    and ei: "(ri, i, a) \<in> set (assign_rank out)"
    and ej: "(rj, j, b) \<in> set (assign_rank out)"
    and nle: "\<not> le b a"
  shows "ri < rj"
proof -
  obtain p where p: "p < length out" "ri = Suc p" "out ! p = (i, a)"
    using ei by (auto simp: assign_rank_nth)
  obtain q where q: "q < length out" "rj = Suc q" "out ! q = (j, b)"
    using ej by (auto simp: assign_rank_nth)
  have "\<not> q < p"
  proof
    assume "q < p"
    from sorted_wrt_nth_less[OF srt this p(1)]
    have "le (snd (out ! q)) (snd (out ! p))" .
    then show False using nle p q by simp
  qed
  moreover have "p \<noteq> q" using nle p q tot[of b b] by auto
  ultimately show ?thesis using p q by simp
qed

subsection \<open>The tables of the script\<close>

lemma subdir_loop_results:
  "nr \<in> set (fst (subdir_loop qs sds)) \<Longrightarrow>
   \<exists>sd\<in>set sds. fst nr = fst sd \<and> process_subdir qs sd = Inr (snd nr)"
proof (induction sds)
  case Nil
  then show ?case by simp
next
  case (Cons sd sds)
  show ?case
  proof (cases "process_subdir qs sd")
    case (Inl e)
    then show ?thesis using Cons.prems by simp
  next
    case (Inr r)
    then have "nr = (fst sd, r) \<or> nr \<in> set (fst (subdir_loop qs sds))"
      using Cons.prems by (auto split: prod.splits)
    then show ?thesis using Cons.IH Inr by auto
  qed
qed

lemma aggregate_subdir_results:
  "effective_subdirs st = Some sds \<Longrightarrow>
   subdir_results (aggregate qs st) = fst (subdir_loop qs sds)"
  by (auto simp: aggregate_def master_part_def Let_def split: prod.splits option.splits sum.splits)

lemma aggregate_no_subdirs:
  "effective_subdirs st = None \<Longrightarrow> ranked_pairs (aggregate qs st) = []"
  by (simp add: aggregate_def ranked_pairs_def)

lemma process_subdir_pair:
  assumes "process_subdir qs sd = Inr r" "concat_subdir_df r = Some i" "merged_subdir_df r = Some s"
  shows "\<exists>dfs. i = pd_concat dfs \<and> sort_if_possible qs i = Inr s"
  using assms unfolding process_subdir_def
  by (auto simp: Let_def split: prod.splits if_splits sum.splits)

lemma master_part_pair:
  assumes "master_concat (master_part qs results) = Some i"
    "master_sorted (master_part qs results) = Some s"
  shows "\<exists>dfs. i = pd_concat dfs \<and> sort_if_possible qs i = Inr s"
  using assms unfolding master_part_def
  by (auto simp: Let_def sort_if_possible_def split: if_splits sum.splits option.splits)

lemma aggregate_master_pair:
  assumes "master_concat (aggregate qs st) = Some i" "master_sorted (aggregate qs st) = Some s"
  shows "\<exists>dfs. i = pd_concat dfs \<and> sort_if_possible qs i = Inr s"
proof (cases "effective_subdirs st")
  case None
  then show ?thesis using assms by (simp add: aggregate_def)
next
  case (Some sds)
  obtain results e where sl: "subdir_loop qs sds = (results, e)" by (cases "subdir_loop qs sds")
  show ?thesis
  proof (cases e)
    case None
    then have "aggregate qs st = master_part qs results"
      using Some sl by (simp add: aggregate_def)
    then show ?thesis using assms master_part_pair by metis
  next
    case (Some e')
    then show ?thesis using \<open>effective_subdirs st = Some sds\<close> sl assms
      by (simp add: aggregate_def)
  qed
qed

lemma ranked_pairs_cases:
  assumes "(inp, out) \<in> set (ranked_pairs (aggregate qs st))"
  shows "\<exists>dfs. inp = pd_concat dfs \<and> sort_if_possible qs inp = Inr out"
proof -
  from assms consider
      (master) "master_concat (aggregate qs st) = Some inp"
               "master_sorted (aggregate qs st) = Some out"
    | (subdir) nr where "nr \<in> set (subdir_results (aggregate qs st))"
               "concat_subdir_df (snd nr) = Some inp" "merged_subdir_df (snd nr) = Some out"
    unfolding ranked_pairs_def by (auto split: option.splits)
  then show ?thesis
  proof cases
    case master
    then show ?thesis by (rule aggregate_master_pair)
  next
    case subdir
    obtain sds where eff: "effective_subdirs st = Some sds"
      using subdir(1) by (cases "effective_subdirs st") (auto simp: aggregate_def)
    then have "nr \<in> set (fst (subdir_loop qs sds))"
      using subdir(1) by (simp add: aggregate_subdir_results)
    then obtain sd where "process_subdir qs sd = Inr (snd nr)"
      using subdir_loop_results by blast
    then show ?thesis using process_subdir_pair subdir(2,3) by blast
  qed
qed


lemma pd_concat_labels: "map fst (rows (pd_concat dfs)) = [0..<length (rows (pd_concat dfs))]"
  by (simp add: pd_concat_def Let_def)

lemma sorted_rows:
  assumes "sort_if_possible qs df = Inr out"
  shows "rows out =
     (case sort_columns df of
        [] \<Rightarrow> rows df
      | [k] \<Rightarrow> qs k (rows df)
      | ks \<Rightarrow> stable_sort (\<lambda>a b. lex_le ks (snd a) (snd b)) (rows df))"
  using assms
  by (auto simp: sort_if_possible_def sort_values_def split: if_splits list.splits)

lemma labels_are_positions:
  assumes "map fst xs = [0..<length xs]" "(r, i, a) \<in> set (assign_rank xs)"
  shows "r = Suc i"
proof -
  obtain p where p: "p < length xs" "r = Suc p" "xs ! p = (i, a)"
    using assms(2) by (auto simp: assign_rank_nth)
  have "map fst xs ! p = p" using assms(1) p(1) by simp
  then have "i = p" using p by simp
  then show ?thesis using p by simp
qed

text \<open>
  C1, as the script has it.  Take a table the aggregator ranks and writes, the master
  table or the table of a subfolder, and two of its rows, with their ranks \<open>ri\<close>, \<open>rj\<close>
  (their positions in the sorted table, from 1) and their labels \<open>i\<close>, \<open>j\<close> (their
  positions in the concatenated input, from 0); the single-column sort of the library
  is taken to sort.  The sorted table is a rearrangement of the concatenated input.
  When the table has the primary metric, the row with the greater primary metric has the
  smaller rank.  When it has the secondary metric, and the primary metrics are equal if
  it has them, the row with the smaller secondary metric has the smaller rank.  When it
  has both metrics and the two rows are equal on both, or when it has neither, the row
  that comes first in the input has the smaller rank.  Nothing is said of the order of
  ties in a table with one metric.
\<close>

theorem rank_order:
  assumes pair: "(inp, out) \<in> set (ranked_pairs (aggregate qs st))"
    and qs: "sorts_single_key qs"
    and ei: "(ri, i, a) \<in> set (assign_rank (rows out))"
    and ej: "(rj, j, b) \<in> set (assign_rank (rows out))"
  shows "mset (rows out) = mset (rows inp) \<and>
         map fst (rows inp) = [0..<length (rows inp)] \<and>
         (''Average_i_pTM'' \<in> set (columns inp) \<and>
          cell_less (Average_i_pTM b) (Average_i_pTM a) \<longrightarrow> ri < rj) \<and>
         (''Average_i_pAE'' \<in> set (columns inp) \<and>
          (''Average_i_pTM'' \<in> set (columns inp) \<longrightarrow> Average_i_pTM a = Average_i_pTM b) \<and>
          cell_less (Average_i_pAE a) (Average_i_pAE b) \<longrightarrow> ri < rj) \<and>
         ((''Average_i_pTM'' \<in> set (columns inp) \<and> ''Average_i_pAE'' \<in> set (columns inp) \<and>
           Average_i_pTM a = Average_i_pTM b \<and> Average_i_pAE a = Average_i_pAE b \<or>
           ''Average_i_pTM'' \<notin> set (columns inp) \<and> ''Average_i_pAE'' \<notin> set (columns inp)) \<and>
          i < j \<longrightarrow> ri < rj)"
proof -
  let ?P = "(''Average_i_pTM'', False)" and ?E = "(''Average_i_pAE'', True)"
  obtain dfs where inp: "inp = pd_concat dfs" and srt: "sort_if_possible qs inp = Inr out"
    using ranked_pairs_cases[OF pair] by blast
  have lab: "map fst (rows inp) = [0..<length (rows inp)]"
    unfolding inp by (rule pd_concat_labels)
  have perm: "mset (qs k xs) = mset xs"
    and sorted: "sorted_wrt (\<lambda>a b. lex_le [k] (snd a) (snd b)) (qs k xs)"
    for k and xs :: "(nat \<times> 'a row) list"
    using qs unfolding sorts_single_key_def by blast+
  have g1: "cell_less (Average_i_pTM b) (Average_i_pTM a) \<Longrightarrow> \<not> lex_le (?P # ks) b a" for ks
    by (cases "Average_i_pTM a"; cases "Average_i_pTM b") (auto simp: cell_less_def metric_def)
  have g2: "cell_less (Average_i_pAE a) (Average_i_pAE b) \<Longrightarrow> \<not> lex_le [?E] b a"
    by (cases "Average_i_pAE a"; cases "Average_i_pAE b") (auto simp: cell_less_def metric_def)
  have eqc: "\<not> cell_before asc c c" for asc and c :: "'a cell"
    using cell_before_asym by blast
  have g3: "Average_i_pTM a = Average_i_pTM b \<Longrightarrow>
            cell_less (Average_i_pAE a) (Average_i_pAE b) \<Longrightarrow> \<not> lex_le [?P, ?E] b a"
    using g2 eqc[of False "Average_i_pTM b"] by (simp add: metric_def)
  have g4: "Average_i_pTM a = Average_i_pTM b \<Longrightarrow> Average_i_pAE a = Average_i_pAE b \<Longrightarrow>
            lex_le [?P, ?E] a b"
    using eqc[of False "Average_i_pTM b"] eqc[of True "Average_i_pAE b"] by (simp add: metric_def)
  consider (none) "''Average_i_pTM'' \<notin> set (columns inp)" "''Average_i_pAE'' \<notin> set (columns inp)"
    | (primary) "''Average_i_pTM'' \<in> set (columns inp)" "''Average_i_pAE'' \<notin> set (columns inp)"
    | (secondary) "''Average_i_pTM'' \<notin> set (columns inp)" "''Average_i_pAE'' \<in> set (columns inp)"
    | (both) "''Average_i_pTM'' \<in> set (columns inp)" "''Average_i_pAE'' \<in> set (columns inp)"
    by blast
  then show ?thesis
  proof cases
    case none
    then have "rows out = rows inp" using sorted_rows[OF srt] by (simp add: sort_columns_def)
    then have "ri = Suc i" "rj = Suc j"
      using labels_are_positions[OF lab] ei ej by auto
    then show ?thesis using none lab \<open>rows out = rows inp\<close> by simp
  next
    case primary
    then have out: "rows out = qs ?P (rows inp)"
      using sorted_rows[OF srt] by (simp add: sort_columns_def)
    have "ri < rj" if "cell_less (Average_i_pTM b) (Average_i_pTM a)"
      using ranks_of_sorted[of "lex_le [?P]" "rows out" ri i a rj j b]
        lex_le_total[of "[?P]"] sorted[of ?P "rows inp"] ei ej g1[OF that, of "[]"]
      unfolding out by blast
    then show ?thesis using primary lab perm out by simp
  next
    case secondary
    then have out: "rows out = qs ?E (rows inp)"
      using sorted_rows[OF srt] by (simp add: sort_columns_def)
    have "ri < rj" if "cell_less (Average_i_pAE a) (Average_i_pAE b)"
      using ranks_of_sorted[of "lex_le [?E]" "rows out" ri i a rj j b]
        lex_le_total[of "[?E]"] sorted[of ?E "rows inp"] ei ej g2[OF that]
      unfolding out by blast
    then show ?thesis using secondary lab perm out by simp
  next
    case both
    let ?le = "lex_le [?P, ?E] :: 'a row \<Rightarrow> 'a row \<Rightarrow> bool"
    have out: "rows out = stable_sort (\<lambda>x y. ?le (snd x) (snd y)) (rows inp)"
      using sorted_rows[OF srt] both by (simp add: sort_columns_def)
    have "sorted_wrt (<) (map fst (rows inp))" using lab by simp
    then have so: "sorted_wrt (stable_order ?le) (rows out)"
      unfolding out using lex_le_trans[of "[?P, ?E]"]
      by (intro stable_sort_order lex_le_total) blast+
    have key: "(\<not> ?le b a \<longrightarrow> ri < rj) \<and> (?le a b \<and> i < j \<longrightarrow> ri < rj)"
      using ranks_of_stable_order[of ?le, OF lex_le_total so ei ej] .
    show ?thesis
      using key g1[of "[?E]"] g3 g4 lab both by (auto simp: out mset_stable_sort)
  qed
qed

text \<open>
  C1 as stated fails on a table with one metric.  pandas sorts a single column with
  numpy's quicksort, which is not a stable sort: the order it leaves between ties depends
  on its implementation and on the length of the table.  With a sort that sorts and
  reverses ties, the second of two tied rows is ranked first.
\<close>

theorem tie_order_counterexample:
  "columns (fst tie_pair) = [''Design'', ''Average_i_pTM'', ''source_subfolder'', ''source_file''] \<and>
   rows (fst tie_pair) =
     [(0, \<lparr>Design = Some ''d1'', Average_i_pTM = Num 5, Average_i_pAE = NaN,
           source_subfolder = Some ''run1'', source_file = Some ''a.csv''\<rparr>),
      (1, \<lparr>Design = Some ''d2'', Average_i_pTM = Num 5, Average_i_pAE = NaN,
           source_subfolder = Some ''run1'', source_file = Some ''a.csv''\<rparr>)] \<and>
   assign_rank (rows (snd tie_pair)) =
     [(1, 1, \<lparr>Design = Some ''d2'', Average_i_pTM = Num 5, Average_i_pAE = NaN,
              source_subfolder = Some ''run1'', source_file = Some ''a.csv''\<rparr>),
      (2, 0, \<lparr>Design = Some ''d1'', Average_i_pTM = Num 5, Average_i_pAE = NaN,
              source_subfolder = Some ''run1'', source_file = Some ''a.csv''\<rparr>)]"
  by code_simp

theorem rank_order_witness:
  "example_pair \<in> set (ranked_pairs (aggregate reverse_ties_sort example_stats)) \<and>
   ''Average_i_pTM'' \<in> set (columns (fst example_pair)) \<and>
   ''Average_i_pAE'' \<in> set (columns (fst example_pair)) \<and>
   (3, 0, score_row ''d3'' 5 3\<lparr>source_subfolder := Some ''run1'', source_file := Some ''a.csv''\<rparr>)
      \<in> set (assign_rank (rows (snd example_pair))) \<and>
   (4, 2, score_row ''d1'' 5 3\<lparr>source_subfolder := Some ''run1'', source_file := Some ''b.csv''\<rparr>)
      \<in> set (assign_rank (rows (snd example_pair))) \<and>
   mset (rows (snd example_pair)) = mset (rows (fst example_pair)) \<and> (3::nat) < 4"
proof -
  have h1: "(fst example_pair, snd example_pair)
      \<in> set (ranked_pairs (aggregate reverse_ties_sort example_stats))"
    by code_simp
  have h2: "''Average_i_pTM'' \<in> set (columns (fst example_pair))" by code_simp
  have h3: "''Average_i_pAE'' \<in> set (columns (fst example_pair))" by code_simp
  have h4: "(3, 0, score_row ''d3'' 5 3\<lparr>source_subfolder := Some ''run1'', source_file := Some ''a.csv''\<rparr>)
      \<in> set (assign_rank (rows (snd example_pair)))" by code_simp
  have h5: "(4, 2, score_row ''d1'' 5 3\<lparr>source_subfolder := Some ''run1'', source_file := Some ''b.csv''\<rparr>)
      \<in> set (assign_rank (rows (snd example_pair)))" by code_simp
  show ?thesis
    using rank_order[OF h1 reverse_ties_sort_sorts h4 h5] h1 h2 h3 h4 h5 by simp
qed


section \<open>Properties of the rank dictionaries\<close>

lemma rankings_of_rows_dict: "rankings_of_rows ranked d = rank_dict row_identifier ranked d"
proof -
  have "(\<lambda>(rank, i, r) d. case Design r of None \<Rightarrow> d
            | Some name \<Rightarrow> (case extract_identifier name of None \<Rightarrow> d
                | Some identifier \<Rightarrow> AList.update identifier rank d)) =
        (\<lambda>(rank, i, r) d. case row_identifier r of None \<Rightarrow> d | Some k \<Rightarrow> AList.update k rank d)"
    by (auto simp: fun_eq_iff row_identifier_def split: option.splits)
  then show ?thesis unfolding rankings_of_rows_def rank_dict_def by (rule arg_cong)
qed

lemma design_rankings_dict: "design_rankings ranked = rank_dict row_design_name ranked []"
proof -
  have "(\<lambda>(rank, i, r) d. case Design r of None \<Rightarrow> d
            | Some name \<Rightarrow> AList.update (fst (splitext (str_strip name))) rank d) =
        (\<lambda>(rank, i, r) d. case row_design_name r of None \<Rightarrow> d | Some k \<Rightarrow> AList.update k rank d)"
    by (auto simp: fun_eq_iff row_design_name_def split: option.splits)
  then show ?thesis unfolding design_rankings_def rank_dict_def by (rule arg_cong)
qed

lemma rank_dict_Cons:
  "rank_dict key ((rank, i, r) # xs) d =
     rank_dict key xs (case key r of None \<Rightarrow> d | Some k \<Rightarrow> AList.update k rank d)"
  by (simp add: rank_dict_def)

lemma rank_dict_absent:
  "\<forall>x\<in>set xs. key (snd (snd x)) \<noteq> Some k \<Longrightarrow> map_of (rank_dict key xs d) k = map_of d k"
proof (induction xs arbitrary: d)
  case Nil
  then show ?case by (simp add: rank_dict_def)
next
  case (Cons x xs)
  obtain rank i r where x: "x = (rank, i, r)" by (cases x)
  have "key r \<noteq> Some k" using Cons.prems x by simp
  then have "map_of (case key r of None \<Rightarrow> d | Some k' \<Rightarrow> AList.update k' rank d) k = map_of d k"
    by (auto simp: update_conv' split: option.splits)
  then show ?case using Cons x by (simp add: rank_dict_Cons)
qed

lemma rank_dict_last:
  assumes "p < length rs" "key (snd (rs ! p)) = Some k"
    and "\<forall>q. p < q \<and> q < length rs \<longrightarrow> key (snd (rs ! q)) \<noteq> Some k"
  shows "map_of (rank_dict key (zip [m..<m + length rs] rs) d) k = Some (m + p)"
  using assms
proof (induction rs arbitrary: m d p)
  case Nil
  then show ?case by simp
next
  case (Cons x rs)
  obtain i r where x: "x = (i, r)" by (cases x)
  let ?d = "case key r of None \<Rightarrow> d | Some k' \<Rightarrow> AList.update k' m d"
  have z: "zip [m..<m + length (x # rs)] (x # rs) = (m, i, r) # zip [Suc m..<Suc m + length rs] rs"
  proof -
    have "m < m + Suc (length rs)" by simp
    from upt_conv_Cons[OF this]
    have "[m..<m + length (x # rs)] = m # [Suc m..<Suc m + length rs]"
      by (simp del: upt_Suc)
    then show ?thesis using x by simp
  qed
  show ?case
  proof (cases p)
    case 0
    then have kr: "key r = Some k" using Cons.prems(2) x by simp
    have "\<forall>y\<in>set (zip [Suc m..<Suc m + length rs] rs). key (snd (snd y)) \<noteq> Some k"
    proof
      fix y assume "y \<in> set (zip [Suc m..<Suc m + length rs] rs)"
      then obtain q where "q < length rs" "snd y = rs ! q"
        by (auto simp: in_set_zip)
      then show "key (snd (snd y)) \<noteq> Some k"
        using Cons.prems(3)[rule_format, of "Suc q"] 0 by simp
    qed
    then have "map_of (rank_dict key (zip [Suc m..<Suc m + length rs] rs) ?d) k = map_of ?d k"
      by (rule rank_dict_absent)
    then show ?thesis unfolding z rank_dict_Cons using kr 0 by (simp add: update_conv')
  next
    case (Suc p')
    have "map_of (rank_dict key (zip [Suc m..<Suc m + length rs] rs) ?d) k = Some (Suc m + p')"
    proof (rule Cons.IH)
      show "p' < length rs" using Cons.prems(1) Suc by simp
      show "key (snd (rs ! p')) = Some k" using Cons.prems(2) Suc by simp
      show "\<forall>q. p' < q \<and> q < length rs \<longrightarrow> key (snd (rs ! q)) \<noteq> Some k"
        using Cons.prems(3) Suc by (metis Suc_less_eq length_Cons nth_Cons_Suc)
    qed
    then show ?thesis unfolding z rank_dict_Cons using Suc by simp
  qed
qed

lemma assign_rank_upt: "assign_rank rs = zip [1..<1 + length rs] rs"
  by (simp add: assign_rank_def)

lemma get_file_rankings_master:
  assumes "master_file sf = Some (Inr mdf)" "''Design'' \<in> set (columns mdf)"
    and "get_file_rankings sf = Inr (ind, mas)"
  shows "mas = rankings_of_rows (assign_rank (rows mdf)) []"
  using assms by (auto simp: get_file_rankings_def Let_def split: sum.splits)

lemma process_pdb_tag:
  assumes "extract_mother_folder_name path = Some m"
    and "extract_identifier (basename path) = Some k"
    and "individual_lookup ind m k = Some ir" and "map_of mas k = Some mr"
  shows "files (process_pdb ind mas content path s)
           (path_join (path_join (dirname path) ''podium'')
              (str_of_nat ir @ ''_'' @ str_of_nat mr @ ''_'' @ basename path)) =
         Some (content path)"
  using assms by (simp add: process_pdb_def Let_def podium_path_def podium_name_def)

lemma rank_of_file_exact:
  assumes "extract_core_identifier_with_ag1_fallback (basename f) mas = k"
    and "map_of mas k = Some r"
  shows "rank_of_file mas f = (Some (f, r, k), [])"
  using assms by (simp add: rank_of_file_def Let_def)

text \<open>
  C9.  When the row at position \<open>p\<close> of the master table is the last one with a given
  join identifier, the rank dictionary has the rank of that row, \<open>p + 1\<close>, for the
  identifier, and every row with the same identifier has a rank that is not greater:
  the dictionary keeps the worst rank.  A file with that identifier is tagged with it:
  in a run of Rank Join on this master table, a file found whose mother folder and
  identifier are found and that has a subfolder rank \<open>ir\<close> is copied into the \<open>podium\<close>
  directory beside it under the name \<open>{ir}_{p + 1}_{file name}\<close>.  The same holds for the
  dictionary of Duplicate Resolution, whose keys are the design names without extension:
  a file whose core identifier is such a name is ranked \<open>p + 1\<close>.
\<close>

theorem last_row_wins:
  assumes "p < length (rows mdf)"
  shows "(\<forall>k. row_identifier (snd (rows mdf ! p)) = Some k \<and>
              (\<forall>q. p < q \<and> q < length (rows mdf) \<longrightarrow>
                   row_identifier (snd (rows mdf ! q)) \<noteq> Some k) \<longrightarrow>
            map_of (rankings_of_rows (assign_rank (rows mdf)) []) k = Some (Suc p) \<and>
            (\<forall>q < length (rows mdf).
               row_identifier (snd (rows mdf ! q)) = Some k \<longrightarrow> Suc q \<le> Suc p) \<and>
            (\<forall>sf ind mas path m ir.
               master_file sf = Some (Inr mdf) \<and> ''Design'' \<in> set (columns mdf) \<and>
               get_file_rankings sf = Inr (ind, mas) \<and>
               extract_mother_folder_name path = Some m \<and>
               extract_identifier (basename path) = Some k \<and>
               individual_lookup ind m k = Some ir \<longrightarrow>
               files (process_pdb ind mas content path s)
                 (path_join (path_join (dirname path) ''podium'')
                    (str_of_nat ir @ ''_'' @ str_of_nat (Suc p) @ ''_'' @ basename path)) =
               Some (content path))) \<and>
         (\<forall>k. row_design_name (snd (rows mdf ! p)) = Some k \<and>
              (\<forall>q. p < q \<and> q < length (rows mdf) \<longrightarrow>
                   row_design_name (snd (rows mdf ! q)) \<noteq> Some k) \<longrightarrow>
            map_of (design_rankings (assign_rank (rows mdf))) k = Some (Suc p) \<and>
            (\<forall>q < length (rows mdf).
               row_design_name (snd (rows mdf ! q)) = Some k \<longrightarrow> Suc q \<le> Suc p) \<and>
            (\<forall>mas f.
               ''Design'' \<in> set (columns mdf) \<and> get_master_rankings (Some (Inr mdf)) = Inr mas \<and>
               extract_core_identifier_with_ag1_fallback (basename f) mas = k \<longrightarrow>
               rank_of_file mas f = (Some (f, Suc p, k), [])))"
proof -
  have a: "map_of (rank_dict key (assign_rank (rows mdf)) []) k = Some (Suc p) \<and>
           (\<forall>q < length (rows mdf). key (snd (rows mdf ! q)) = Some k \<longrightarrow> Suc q \<le> Suc p)"
    if "key (snd (rows mdf ! p)) = Some k"
       "\<forall>q. p < q \<and> q < length (rows mdf) \<longrightarrow> key (snd (rows mdf ! q)) \<noteq> Some k"
    for k and key :: "'a row \<Rightarrow> string option"
  proof
    show "map_of (rank_dict key (assign_rank (rows mdf)) []) k = Some (Suc p)"
      unfolding assign_rank_upt
      using rank_dict_last[of p "rows mdf" key k 1 "[]"] assms that by simp
    show "\<forall>q < length (rows mdf). key (snd (rows mdf ! q)) = Some k \<longrightarrow> Suc q \<le> Suc p"
      using that(2) by (metis not_less_eq_eq not_less)
  qed
  have j: "files (process_pdb ind mas content path s)
             (path_join (path_join (dirname path) ''podium'')
                (str_of_nat ir @ ''_'' @ str_of_nat (Suc p) @ ''_'' @ basename path)) =
           Some (content path)"
    if "map_of (rankings_of_rows (assign_rank (rows mdf)) []) k = Some (Suc p)"
       "master_file sf = Some (Inr mdf) \<and> ''Design'' \<in> set (columns mdf) \<and>
        get_file_rankings sf = Inr (ind, mas) \<and>
        extract_mother_folder_name path = Some m \<and>
        extract_identifier (basename path) = Some k \<and>
        individual_lookup ind m k = Some ir"
    for k ind mas path m ir and sf :: "'a stats_files"
  proof -
    have "mas = rankings_of_rows (assign_rank (rows mdf)) []"
      using get_file_rankings_master[of sf mdf ind mas] that(2) by blast
    then have "map_of mas k = Some (Suc p)" using that(1) by simp
    then show ?thesis using process_pdb_tag[of path m k ind ir mas "Suc p" content s] that(2) by blast
  qed
  have d: "rank_of_file mas f = (Some (f, Suc p, k), [])"
    if "map_of (design_rankings (assign_rank (rows mdf))) k = Some (Suc p)"
       "''Design'' \<in> set (columns mdf) \<and> get_master_rankings (Some (Inr mdf)) = Inr mas \<and>
        extract_core_identifier_with_ag1_fallback (basename f) mas = k"
    for k mas f
  proof -
    have "mas = design_rankings (assign_rank (rows mdf))"
      using that(2) by (auto simp: get_master_rankings_def)
    then show ?thesis using rank_of_file_exact[of f mas k "Suc p"] that by simp
  qed
  show ?thesis
  proof (intro conjI allI impI)
    fix k
    assume h: "row_identifier (snd (rows mdf ! p)) = Some k \<and>
              (\<forall>q. p < q \<and> q < length (rows mdf) \<longrightarrow>
                   row_identifier (snd (rows mdf ! q)) \<noteq> Some k)"
    note r = a[of row_identifier k, unfolded rankings_of_rows_dict[symmetric]]
    from h r have m: "map_of (rankings_of_rows (assign_rank (rows mdf)) []) k = Some (Suc p)"
      by blast
    show "map_of (rankings_of_rows (assign_rank (rows mdf)) []) k = Some (Suc p)" by (rule m)
    show "\<And>q. q < length (rows mdf) \<Longrightarrow> row_identifier (snd (rows mdf ! q)) = Some k \<Longrightarrow>
            Suc q \<le> Suc p"
      using h r by blast
    show "\<And>sf ind mas path m ir.
            master_file sf = Some (Inr mdf) \<and> ''Design'' \<in> set (columns mdf) \<and>
            get_file_rankings sf = Inr (ind, mas) \<and>
            extract_mother_folder_name path = Some m \<and>
            extract_identifier (basename path) = Some k \<and>
            individual_lookup ind m k = Some ir \<Longrightarrow>
            files (process_pdb ind mas content path s)
              (path_join (path_join (dirname path) ''podium'')
                 (str_of_nat ir @ ''_'' @ str_of_nat (Suc p) @ ''_'' @ basename path)) =
            Some (content path)"
      using j[OF m] by blast
  next
    fix k
    assume h: "row_design_name (snd (rows mdf ! p)) = Some k \<and>
              (\<forall>q. p < q \<and> q < length (rows mdf) \<longrightarrow>
                   row_design_name (snd (rows mdf ! q)) \<noteq> Some k)"
    note r = a[of row_design_name k, unfolded design_rankings_dict[symmetric]]
    from h r have m: "map_of (design_rankings (assign_rank (rows mdf))) k = Some (Suc p)"
      by blast
    show "map_of (design_rankings (assign_rank (rows mdf))) k = Some (Suc p)" by (rule m)
    show "\<And>q. q < length (rows mdf) \<Longrightarrow> row_design_name (snd (rows mdf ! q)) = Some k \<Longrightarrow>
            Suc q \<le> Suc p"
      using h r by blast
    show "\<And>mas f. ''Design'' \<in> set (columns mdf) \<and> get_master_rankings (Some (Inr mdf)) = Inr mas \<and>
               extract_core_identifier_with_ag1_fallback (basename f) mas = k \<Longrightarrow>
               rank_of_file mas f = (Some (f, Suc p, k), [])"
      using d[OF m] by blast
  qed
qed

theorem last_row_wins_witness:
  "(2::nat) < length (rows duplicate_rows) \<and>
   row_identifier (snd (rows duplicate_rows ! 0)) = Some ''s1_mpnn2'' \<and>
   row_identifier (snd (rows duplicate_rows ! 2)) = Some ''s1_mpnn2'' \<and>
   map_of (rankings_of_rows (assign_rank (rows duplicate_rows)) []) ''s1_mpnn2'' = Some 3 \<and>
   get_file_rankings duplicate_stats_files =
     Inr ([(''run'', [(''s1_mpnn2'', 3), (''s7_mpnn1'', 2)])], [(''s1_mpnn2'', 3), (''s7_mpnn1'', 2)]) \<and>
   files (process_pdb [(''run'', [(''s1_mpnn2'', 3), (''s7_mpnn1'', 2)])]
            [(''s1_mpnn2'', 3), (''s7_mpnn1'', 2)] (\<lambda>p. p)
            ''./run/pooled/aligned/filtered_pdbs_jc_5.0A/run_s1_mpnn2_model1.pdb''
            \<lparr>files = Map.empty, copied_files = 0, skipped_files = 0, overwritten_files = 0,
              reports = []\<rparr>)
     ''./run/pooled/aligned/filtered_pdbs_jc_5.0A/podium/3_3_run_s1_mpnn2_model1.pdb'' =
     Some ''./run/pooled/aligned/filtered_pdbs_jc_5.0A/run_s1_mpnn2_model1.pdb'' \<and>
   row_design_name (snd (rows duplicate_rows ! 0)) = Some ''run_s1_mpnn2'' \<and>
   row_design_name (snd (rows duplicate_rows ! 2)) = Some ''run_s1_mpnn2'' \<and>
   map_of (design_rankings (assign_rank (rows duplicate_rows))) ''run_s1_mpnn2'' = Some 3 \<and>
   rank_of_file (design_rankings (assign_rank (rows duplicate_rows)))
     ''./run/pooled/aligned/filtered_pdbs_jc_5.0A/run_s1_mpnn2_model1.pdb'' =
     (Some (''./run/pooled/aligned/filtered_pdbs_jc_5.0A/run_s1_mpnn2_model1.pdb'', 3,
            ''run_s1_mpnn2''), [])"
proof -
  let ?path = "''./run/pooled/aligned/filtered_pdbs_jc_5.0A/run_s1_mpnn2_model1.pdb''"
  let ?ind = "[(''run'', [(''s1_mpnn2'', 3::nat), (''s7_mpnn1'', 2)])]"
  let ?mas = "[(''s1_mpnn2'', 3::nat), (''s7_mpnn1'', 2)]"
  let ?s = "\<lparr>files = Map.empty :: string \<rightharpoonup> string, copied_files = 0, skipped_files = 0,
             overwritten_files = 0, reports = []\<rparr>"
  have len: "length (rows duplicate_rows) = 3" by code_simp
  have h0: "(2::nat) < length (rows duplicate_rows)" using len by simp
  have h1: "row_identifier (snd (rows duplicate_rows ! 2)) = Some ''s1_mpnn2''" by code_simp
  have h2: "row_design_name (snd (rows duplicate_rows ! 2)) = Some ''run_s1_mpnn2''"
    by code_simp
  have h3: "row_identifier (snd (rows duplicate_rows ! 0)) = Some ''s1_mpnn2''" by code_simp
  have h4: "row_design_name (snd (rows duplicate_rows ! 0)) = Some ''run_s1_mpnn2''"
    by code_simp
  have none: "\<not> (2 < q \<and> q < length (rows duplicate_rows))" for q using len by simp
  have g1: "master_file duplicate_stats_files = Some (Inr duplicate_rows)"
    by (simp add: duplicate_stats_files_def)
  have g2: "''Design'' \<in> set (columns duplicate_rows)" by code_simp
  have g3: "get_file_rankings duplicate_stats_files = Inr (?ind, ?mas)" by code_simp
  have g4: "extract_mother_folder_name ?path = Some ''run''" by code_simp
  have g5: "extract_identifier (basename ?path) = Some ''s1_mpnn2''" by code_simp
  have g6: "individual_lookup ?ind ''run'' ''s1_mpnn2'' = Some 3" by code_simp
  have g7: "path_join (path_join (dirname ?path) ''podium'')
              (str_of_nat 3 @ ''_'' @ str_of_nat (Suc 2) @ ''_'' @ basename ?path) =
            ''./run/pooled/aligned/filtered_pdbs_jc_5.0A/podium/3_3_run_s1_mpnn2_model1.pdb''"
    by code_simp
  have d1: "get_master_rankings (Some (Inr duplicate_rows)) =
              Inr (design_rankings (assign_rank (rows duplicate_rows)))"
    using g2 by (simp add: get_master_rankings_def)
  have d2: "extract_core_identifier_with_ag1_fallback (basename ?path)
              (design_rankings (assign_rank (rows duplicate_rows))) = ''run_s1_mpnn2''"
    by code_simp
  note t = last_row_wins[OF h0, of "\<lambda>p. p" ?s]
  have t1: "map_of (rankings_of_rows (assign_rank (rows duplicate_rows)) []) ''s1_mpnn2'' = Some 3"
    using t h1 none by simp
  have t2: "files (process_pdb ?ind ?mas (\<lambda>p. p) ?path ?s)
      (path_join (path_join (dirname ?path) ''podium'')
              (str_of_nat 3 @ ''_'' @ str_of_nat (Suc 2) @ ''_'' @ basename ?path)) = Some ?path"
    using t h1 none g1 g2 g3 g4 g5 g6 by blast
  have t3: "map_of (design_rankings (assign_rank (rows duplicate_rows))) ''run_s1_mpnn2'' = Some 3"
    using t h2 none by simp
  have t4: "rank_of_file (design_rankings (assign_rank (rows duplicate_rows))) ?path =
     (Some (?path, Suc 2, ''run_s1_mpnn2''), [])"
    using t h2 none g2 d1 d2 by blast
  show ?thesis
    using h0 h1 h3 h2 h4 t1 t2[unfolded g7] t3 t4 g3 by simp
qed

section \<open>Properties of Duplicate Resolution\<close>

subsection \<open>Copying when absent\<close>

lemma find_app: "find P (xs @ ys) = (case find P xs of None \<Rightarrow> find P ys | Some x \<Rightarrow> Some x)"
  by (induction xs) auto

lemma copy_absent_Nil: "copy_absent content [] m = m"
  by (auto simp: copy_absent_def fun_eq_iff split: option.splits)

lemma copy_absent_append:
  "copy_absent content ps (copy_absent content qs m) = copy_absent content (qs @ ps) m"
  by (auto simp: copy_absent_def fun_eq_iff find_app split: option.splits)

lemma copy_absent_idem:
  "copy_absent content ps (copy_absent content ps m) = copy_absent content ps m"
  by (auto simp: copy_absent_def fun_eq_iff split: option.splits)

lemma copy_to_unique_dirs:
  "unique (copy_to_unique content p st) = copy_absent content [p] (unique st)"
  "not_unique_basefold (copy_to_unique content p st) = not_unique_basefold st"
  "printed (copy_to_unique content p st) = printed st"
  by (auto simp: copy_to_unique_def copy_absent_def Let_def fun_eq_iff split: option.splits)

lemma copy_to_not_unique_dirs:
  "not_unique_basefold (copy_to_not_unique content p st) =
     copy_absent content [p] (not_unique_basefold st)"
  "unique (copy_to_not_unique content p st) = unique st"
  "printed (copy_to_not_unique content p st) = printed st"
  by (auto simp: copy_to_not_unique_def copy_absent_def Let_def fun_eq_iff split: option.splits)

lemma fold_copy_to_not_unique:
  "not_unique_basefold (fold (\<lambda>w. copy_to_not_unique content (fst w)) ws st) =
     copy_absent content (map fst ws) (not_unique_basefold st) \<and>
   unique (fold (\<lambda>w. copy_to_not_unique content (fst w)) ws st) = unique st \<and>
   printed (fold (\<lambda>w. copy_to_not_unique content (fst w)) ws st) = printed st"
proof (induction ws arbitrary: st)
  case Nil
  then show ?case by (simp add: copy_absent_Nil)
next
  case (Cons w ws)
  have "copy_absent content (map fst ws) (copy_absent content [fst w] (not_unique_basefold st)) =
        copy_absent content (map fst (w # ws)) (not_unique_basefold st)"
    by (simp add: copy_absent_append)
  then show ?case using Cons[of "copy_to_not_unique content (fst w) st"]
    by (simp add: copy_to_not_unique_dirs)
qed

lemma process_group_dirs:
  "unique (process_group mr content g st) = copy_absent content (unique_targets mr g) (unique st)"
  "not_unique_basefold (process_group mr content g st) =
     copy_absent content (not_unique_targets mr g) (not_unique_basefold st)"
proof -
  obtain b w msgs where fb: "find_best_and_worst_ranked_files (snd g) mr = (b, w, msgs)"
    by (cases "find_best_and_worst_ranked_files (snd g) mr") auto
  have bn: "b = None \<Longrightarrow> w = []"
    using fb by (auto simp: find_best_and_worst_ranked_files_def split: prod.splits list.splits)
  show "unique (process_group mr content g st) = copy_absent content (unique_targets mr g) (unique st)"
    using fb bn
    by (cases b)
       (auto simp: process_group_def unique_targets_def copy_to_unique_dirs copy_absent_Nil
          fold_copy_to_not_unique split: list.splits)
  show "not_unique_basefold (process_group mr content g st) =
     copy_absent content (not_unique_targets mr g) (not_unique_basefold st)"
    using fb bn
    by (cases b)
       (auto simp: process_group_def not_unique_targets_def copy_to_unique_dirs copy_absent_Nil
          fold_copy_to_not_unique split: list.splits)
qed

lemma fold_process_group_dirs:
  "unique (fold (process_group mr content) gs st) =
     copy_absent content (concat (map (unique_targets mr) gs)) (unique st) \<and>
   not_unique_basefold (fold (process_group mr content) gs st) =
     copy_absent content (concat (map (not_unique_targets mr) gs)) (not_unique_basefold st)"
proof (induction gs arbitrary: st)
  case Nil
  then show ?case by (simp add: copy_absent_Nil)
next
  case (Cons g gs)
  show ?case
    using Cons[of "process_group mr content g st"]
    by (simp add: process_group_dirs copy_absent_append)
qed

lemma process_pooled_dir_dirs:
  "unique (process_pooled_dir mr content pdbs st) =
     copy_absent content (concat (map (unique_targets mr) (s_number_groups pdbs))) (unique st)"
  "not_unique_basefold (process_pooled_dir mr content pdbs st) =
     copy_absent content (concat (map (not_unique_targets mr) (s_number_groups pdbs)))
       (not_unique_basefold st)"
  unfolding process_pooled_dir_def by (simp_all add: fold_process_group_dirs)


subsection \<open>The groups\<close>

lemma set_update_subset: "set (AList.update k v al) \<subseteq> insert (k, v) (set al)"
  by (induction al) auto

lemma add_to_group_members:
  assumes "\<forall>(k, fs)\<in>set gs. \<forall>g\<in>set fs. extract_s_number (basename g) = Some k"
  shows "\<forall>(k, fs)\<in>set (add_to_group f gs). \<forall>g\<in>set fs. extract_s_number (basename g) = Some k"
proof (cases "extract_s_number (basename f)")
  case None
  then show ?thesis using assms by (simp add: add_to_group_def)
next
  case (Some s)
  let ?old = "case map_of gs s of None \<Rightarrow> [] | Some fs \<Rightarrow> fs"
  have old: "\<forall>g\<in>set ?old. extract_s_number (basename g) = Some s"
  proof (cases "map_of gs s")
    case None
    then show ?thesis by simp
  next
    case (Some fs')
    then have "(s, fs') \<in> set gs" by (rule map_of_SomeD)
    then show ?thesis using assms Some by auto
  qed
  have "set (add_to_group f gs) \<subseteq> insert (s, ?old @ [f]) (set gs)"
    using Some set_update_subset[of s "?old @ [f]" gs] by (simp add: add_to_group_def)
  then have "\<And>k fs. (k, fs) \<in> set (add_to_group f gs) \<Longrightarrow>
      (k, fs) = (s, ?old @ [f]) \<or> (k, fs) \<in> set gs" by blast
  moreover have "\<forall>g\<in>set (?old @ [f]). extract_s_number (basename g) = Some s"
    using old Some by simp
  ultimately show ?thesis using assms by blast
qed

lemma fold_add_to_group_members:
  assumes "\<forall>(k, fs)\<in>set gs. \<forall>g\<in>set fs. extract_s_number (basename g) = Some k"
  shows "\<forall>(k, fs)\<in>set (fold add_to_group pdbs gs).
           \<forall>g\<in>set fs. extract_s_number (basename g) = Some k"
  using assms
proof (induction pdbs arbitrary: gs)
  case Nil
  then show ?case by simp
next
  case (Cons f pdbs)
  show ?case using Cons.IH[OF add_to_group_members[OF Cons.prems]] by simp
qed

lemma s_number_groups_members:
  "(k, fs) \<in> set (s_number_groups pdbs) \<Longrightarrow> g \<in> set fs \<Longrightarrow>
   extract_s_number (basename g) = Some k"
proof -
  assume a: "(k, fs) \<in> set (s_number_groups pdbs)" "g \<in> set fs"
  have "\<forall>(k, fs)\<in>set (s_number_groups pdbs).
          \<forall>g\<in>set fs. extract_s_number (basename g) = Some k"
    unfolding s_number_groups_def by (rule fold_add_to_group_members) simp
  then show ?thesis using a by blast
qed

subsection \<open>The ranked files of a group\<close>

lemma rank_of_file_path: "fst (rank_of_file mr f) = Some x \<Longrightarrow> fst x = f"
  by (auto simp: rank_of_file_def Let_def split: option.splits prod.splits)

lemma rank_of_file_unresolved:
  "fst (rank_of_file mr f) = None \<Longrightarrow>
   snd (rank_of_file mr f) =
     [NoRankingFound (extract_core_identifier_with_ag1_fallback (basename f) mr) (basename f)]"
  by (auto simp: rank_of_file_def Let_def split: option.splits prod.splits)

lemma file_rankings_loop_entries:
  "fst (file_rankings_loop mr fs) =
     concat (map (\<lambda>f. case fst (rank_of_file mr f) of None \<Rightarrow> [] | Some x \<Rightarrow> [x]) fs)"
  by (induction fs) (auto split: prod.splits option.splits)

lemma file_rankings_loop_msgs:
  "snd (file_rankings_loop mr fs) = concat (map (\<lambda>f. snd (rank_of_file mr f)) fs)"
  by (induction fs) (auto split: prod.splits option.splits)

lemma file_rankings_loop_paths:
  "map fst (fst (file_rankings_loop mr fs)) = filter (\<lambda>f. resolved_rank mr f \<noteq> None) fs"
  unfolding file_rankings_loop_entries
  by (induction fs) (auto simp: resolved_rank_def dest: rank_of_file_path split: option.splits)

lemma file_rankings_loop_rank:
  "x \<in> set (fst (file_rankings_loop mr fs)) \<Longrightarrow>
   fst x \<in> set fs \<and> resolved_rank mr (fst x) = Some (fst (snd x))"
proof -
  assume "x \<in> set (fst (file_rankings_loop mr fs))"
  then obtain f where f: "f \<in> set fs" "fst (rank_of_file mr f) = Some x"
    unfolding file_rankings_loop_entries by (auto split: option.splits)
  then have "fst x = f" by (simp add: rank_of_file_path)
  then show ?thesis using f by (simp add: resolved_rank_def)
qed

lemma unresolved_reported:
  assumes "f \<in> set fs" "resolved_rank mr f = None"
  shows "NoRankingFound (extract_core_identifier_with_ag1_fallback (basename f) mr) (basename f)
           \<in> set (snd (file_rankings_loop mr fs))"
proof -
  have "fst (rank_of_file mr f) = None" using assms(2) by (simp add: resolved_rank_def)
  from rank_of_file_unresolved[OF this]
  have "NoRankingFound (extract_core_identifier_with_ag1_fallback (basename f) mr) (basename f)
          \<in> set (snd (rank_of_file mr f))" by simp
  then show ?thesis
    unfolding file_rankings_loop_msgs using assms(1) by auto
qed

subsection \<open>Sorting by rank\<close>

lemma find_best_cases:
  fixes fs mr
  defines "rs \<equiv> fst (file_rankings_loop mr fs)"
  shows "(rs = [] \<and> find_best_and_worst_ranked_files fs mr = (None, [], snd (file_rankings_loop mr fs))) \<or>
         (\<exists>best worst. find_best_and_worst_ranked_files fs mr =
              (Some best, worst, snd (file_rankings_loop mr fs)) \<and>
            mset (best # worst) = mset rs \<and>
            (\<forall>w\<in>set worst. fst (snd best) \<le> fst (snd w)))"
proof -
  let ?le = "\<lambda>x y :: string \<times> nat \<times> string. fst (snd x) \<le> fst (snd y)"
  have srt: "sorted_wrt ?le (stable_sort ?le rs)"
    by (rule stable_sort_sorted) auto
  show ?thesis
  proof (cases "stable_sort ?le rs")
    case Nil
    then have "rs = []" using mset_stable_sort[of ?le rs] by (metis mset_zero_iff)
    then show ?thesis using Nil
      by (auto simp: find_best_and_worst_ranked_files_def rs_def split: prod.splits)
  next
    case (Cons best worst)
    have "mset (best # worst) = mset rs" using mset_stable_sort[of ?le rs] Cons by simp
    moreover have "\<forall>w\<in>set worst. fst (snd best) \<le> fst (snd w)" using srt Cons by simp
    moreover have "find_best_and_worst_ranked_files fs mr =
              (Some best, worst, snd (file_rankings_loop mr fs))"
      using Cons by (auto simp: find_best_and_worst_ranked_files_def rs_def split: prod.splits)
    ultimately show ?thesis by blast
  qed
qed


lemma multi_group:
  assumes "length fs \<noteq> 1"
  obtains (none) "fst (file_rankings_loop mr fs) = []" "unique_targets mr (k, fs) = []"
      "not_unique_targets mr (k, fs) = []" "canonical_file mr fs = None"
    | (some) best worst where
      "mset (best # worst) = mset (fst (file_rankings_loop mr fs))"
      "\<forall>w\<in>set worst. fst (snd best) \<le> fst (snd w)"
      "unique_targets mr (k, fs) = [fst best]"
      "not_unique_targets mr (k, fs) = map fst worst"
      "canonical_file mr fs = Some (fst best)"
proof -
  have ut: "unique_targets mr (k, fs) =
      (case fst (find_best_and_worst_ranked_files fs mr) of None \<Rightarrow> [] | Some b \<Rightarrow> [fst b])"
    using assms by (cases fs rule: list.exhaust; cases "tl fs") (auto simp: unique_targets_def)
  have nt: "not_unique_targets mr (k, fs) =
      map fst (fst (snd (find_best_and_worst_ranked_files fs mr)))"
    using assms by (cases fs rule: list.exhaust; cases "tl fs") (auto simp: not_unique_targets_def)
  from find_best_cases[of mr fs] show ?thesis
  proof (elim disjE conjE exE)
    assume "fst (file_rankings_loop mr fs) = []"
      "find_best_and_worst_ranked_files fs mr = (None, [], snd (file_rankings_loop mr fs))"
    then show ?thesis using none ut nt by (simp add: canonical_file_def)
  next
    fix best worst
    assume "find_best_and_worst_ranked_files fs mr =
              (Some best, worst, snd (file_rankings_loop mr fs))"
      "mset (best # worst) = mset (fst (file_rankings_loop mr fs))"
      "\<forall>w\<in>set worst. fst (snd best) \<le> fst (snd w)"
    then show ?thesis using some[of best worst] ut nt by (simp add: canonical_file_def)
  qed
qed

lemma targets_subset:
  "set (unique_targets mr g) \<subseteq> set (snd g)" "set (not_unique_targets mr g) \<subseteq> set (snd g)"
proof -
  obtain k fs where g: "g = (k, fs)" by (cases g)
  have "set (unique_targets mr (k, fs)) \<subseteq> set fs \<and> set (not_unique_targets mr (k, fs)) \<subseteq> set fs"
  proof (cases "length fs = 1")
    case True
    then obtain f where "fs = [f]" by (cases fs) auto
    then show ?thesis by (simp add: unique_targets_def not_unique_targets_def)
  next
    case False
    then show ?thesis
    proof (cases rule: multi_group[of fs mr k])
      case none
      then show ?thesis by simp
    next
      case (some best worst)
      have "set (best # worst) = set (fst (file_rankings_loop mr fs))"
        using some(1) by (metis set_mset_mset)
      then have "\<forall>x\<in>set (best # worst). fst x \<in> set fs"
        using file_rankings_loop_rank[of _ mr fs] by blast
      then show ?thesis using some(3,4) by auto
    qed
  qed
  then show "set (unique_targets mr g) \<subseteq> set (snd g)"
    "set (not_unique_targets mr g) \<subseteq> set (snd g)" using g by simp_all
qed

lemma find_none: "(\<forall>x\<in>set xs. \<not> P x) \<Longrightarrow> find P xs = None"
  by (induction xs) auto

lemma copy_absent_other:
  "\<forall>p\<in>set ps. basename p \<noteq> n \<Longrightarrow> copy_absent content ps m n = m n"
  by (auto simp: copy_absent_def find_none split: option.splits)

text \<open>
  C10.  A file whose name has no \<open>_s<digits>_\<close> token is in no group, and processing
  the directory leaves \<open>unique\<close> and \<open>not_unique_basefold\<close> as they were at its name:
  it is copied to neither.
\<close>

theorem ungrouped_file_omitted:
  assumes "extract_s_number (basename f) = None"
  shows "(\<forall>g\<in>set (s_number_groups pdb_files). f \<notin> set (snd g)) \<and>
         unique (process_pooled_dir mr content pdb_files st) (basename f) =
           unique st (basename f) \<and>
         not_unique_basefold (process_pooled_dir mr content pdb_files st) (basename f) =
           not_unique_basefold st (basename f)"
proof -
  have mem: "extract_s_number (basename p) \<noteq> None"
    if "g \<in> set (s_number_groups pdb_files)" "p \<in> set (snd g)" for g p
    using s_number_groups_members[of "fst g" "snd g" pdb_files p] that by simp
  then have a: "\<forall>g\<in>set (s_number_groups pdb_files). f \<notin> set (snd g)"
    using assms by blast
  have u: "\<forall>p\<in>set (concat (map (unique_targets mr) (s_number_groups pdb_files))).
             basename p \<noteq> basename f"
    using mem targets_subset(1)[of mr] assms by fastforce
  have n: "\<forall>p\<in>set (concat (map (not_unique_targets mr) (s_number_groups pdb_files))).
             basename p \<noteq> basename f"
    using mem targets_subset(2)[of mr] assms by fastforce
  show ?thesis
    using a copy_absent_other[OF u, of content "unique st"]
      copy_absent_other[OF n, of content "not_unique_basefold st"]
    by (simp add: process_pooled_dir_dirs)
qed


lemma find_basename:
  assumes "inj_on basename (set fs)" "set ps \<subseteq> set fs" "f \<in> set fs"
  shows "find (\<lambda>p. basename p = basename f) ps = (if f \<in> set ps then Some f else None)"
  using assms(2)
proof (induction ps)
  case Nil
  then show ?case by simp
next
  case (Cons p ps)
  have "basename p = basename f \<longleftrightarrow> p = f"
    using assms(1,3) Cons.prems by (auto dest: inj_onD)
  then show ?case using Cons by auto
qed

lemma copy_absent_at:
  assumes "inj_on basename (set fs)" "set ps \<subseteq> set fs" "f \<in> set fs"
  shows "copy_absent content ps m (basename f) =
     (case m (basename f) of Some c \<Rightarrow> Some c
      | None \<Rightarrow> if f \<in> set ps then Some (content f) else None)"
  using find_basename[OF assms] by (simp add: copy_absent_def split: option.splits)

lemma process_group_printed:
  assumes "length fs \<noteq> 1"
  shows "printed (process_group mr content (k, fs) st) =
         printed st @ snd (file_rankings_loop mr fs)"
proof -
  have ne: "\<And>f. fs \<noteq> [f]" using assms by auto
  show ?thesis
    using find_best_cases[of mr fs] ne
    by (cases fs rule: list.exhaust; cases "tl fs")
       (auto simp: process_group_def fold_copy_to_not_unique copy_to_unique_dirs)
qed

text \<open>
  C4, as the script has it.  Take a group with several members, whose file names are
  distinct.  When no member has a rank, nothing is copied.  Otherwise the canonical file
  is a ranked member whose rank no ranked member undercuts; it is copied to \<open>unique\<close>
  unless a file of its name is there, and not to \<open>not_unique_basefold\<close>; every other
  ranked member is copied to \<open>not_unique_basefold\<close> unless a file of its name is there,
  and not to \<open>unique\<close>.  A member without rank is reported and is copied to neither
  directory.
\<close>

theorem group_routing:
  assumes multi: "length fs \<noteq> 1" and dist: "distinct (map basename fs)"
  shows "(case canonical_file mr fs of
            None \<Rightarrow>
              (\<forall>f\<in>set fs. resolved_rank mr f = None) \<and>
              unique (process_group mr content (k, fs) st) = unique st \<and>
              not_unique_basefold (process_group mr content (k, fs) st) = not_unique_basefold st
          | Some b \<Rightarrow>
              b \<in> set fs \<and>
              (\<exists>rb. resolved_rank mr b = Some rb \<and>
                    (\<forall>f\<in>set fs. \<forall>r. resolved_rank mr f = Some r \<longrightarrow> rb \<le> r)) \<and>
              unique (process_group mr content (k, fs) st) (basename b) =
                (case unique st (basename b) of None \<Rightarrow> Some (content b) | Some c \<Rightarrow> Some c) \<and>
              not_unique_basefold (process_group mr content (k, fs) st) (basename b) =
                not_unique_basefold st (basename b) \<and>
              (\<forall>f\<in>set fs. f \<noteq> b \<and> resolved_rank mr f \<noteq> None \<longrightarrow>
                 not_unique_basefold (process_group mr content (k, fs) st) (basename f) =
                   (case not_unique_basefold st (basename f) of
                      None \<Rightarrow> Some (content f) | Some c \<Rightarrow> Some c) \<and>
                 unique (process_group mr content (k, fs) st) (basename f) =
                   unique st (basename f))) \<and>
         (\<forall>f\<in>set fs. resolved_rank mr f = None \<longrightarrow>
            unique (process_group mr content (k, fs) st) (basename f) = unique st (basename f) \<and>
            not_unique_basefold (process_group mr content (k, fs) st) (basename f) =
              not_unique_basefold st (basename f) \<and>
            NoRankingFound (extract_core_identifier_with_ag1_fallback (basename f) mr)
                (basename f) \<in> set (printed (process_group mr content (k, fs) st)))"
proof -
  let ?st' = "process_group mr content (k, fs) st"
  let ?rs = "fst (file_rankings_loop mr fs)"
  have inj: "inj_on basename (set fs)" and dfs: "distinct fs"
    using dist by (simp_all add: distinct_map)
  have paths: "map fst ?rs = filter (\<lambda>f. resolved_rank mr f \<noteq> None) fs"
    by (rule file_rankings_loop_paths)
  have drs: "distinct (map fst ?rs)" unfolding paths using dfs by simp
  have res_in: "f \<in> fst ` set ?rs \<longleftrightarrow> f \<in> set fs \<and> resolved_rank mr f \<noteq> None" for f
  proof -
    have "fst ` set ?rs = set (filter (\<lambda>f. resolved_rank mr f \<noteq> None) fs)"
      using paths by (metis set_map)
    then show ?thesis by simp
  qed
  have u: "unique ?st' = copy_absent content (unique_targets mr (k, fs)) (unique st)"
    and n: "not_unique_basefold ?st' =
            copy_absent content (not_unique_targets mr (k, fs)) (not_unique_basefold st)"
    by (simp_all add: process_group_dirs)
  have us: "set (unique_targets mr (k, fs)) \<subseteq> set fs"
    and ns: "set (not_unique_targets mr (k, fs)) \<subseteq> set fs"
    using targets_subset[of mr "(k, fs)"] by simp_all
  have ua: "unique ?st' (basename f) =
      (case unique st (basename f) of Some c \<Rightarrow> Some c
       | None \<Rightarrow> if f \<in> set (unique_targets mr (k, fs)) then Some (content f) else None)"
    if "f \<in> set fs" for f
    unfolding u using copy_absent_at[OF inj us that] .
  have na: "not_unique_basefold ?st' (basename f) =
      (case not_unique_basefold st (basename f) of Some c \<Rightarrow> Some c
       | None \<Rightarrow> if f \<in> set (not_unique_targets mr (k, fs)) then Some (content f) else None)"
    if "f \<in> set fs" for f
    unfolding n using copy_absent_at[OF inj ns that] .
  have rep: "NoRankingFound (extract_core_identifier_with_ag1_fallback (basename f) mr)
        (basename f) \<in> set (printed ?st')"
    if "f \<in> set fs" "resolved_rank mr f = None" for f
    using unresolved_reported[OF that] process_group_printed[OF multi, of mr content k st] by simp
  from multi show ?thesis
  proof (cases rule: multi_group[of fs mr k])
    case none
    have "\<forall>f\<in>set fs. resolved_rank mr f = None"
      using res_in none(1) by (metis empty_iff image_empty list.set(1))
    moreover have "unique ?st' = unique st" "not_unique_basefold ?st' = not_unique_basefold st"
      unfolding u n none(2,3) by (simp_all add: copy_absent_Nil)
    ultimately show ?thesis using none(4) rep by simp
  next
    case (some best worst)
    let ?b = "fst best"
    have sets: "set (best # worst) = set ?rs" using some(1) by (metis set_mset_mset)
    have "mset (map fst (best # worst)) = mset (map fst ?rs)"
      using some(1) by (metis mset_map)
    then have dbw: "distinct (map fst (best # worst))"
      using drs by (metis mset_eq_imp_distinct_iff)
    have b_in: "?b \<in> set fs" and b_res: "resolved_rank mr ?b = Some (fst (snd best))"
      using file_rankings_loop_rank[of best mr fs] sets by auto
    have minr: "fst (snd best) \<le> r" if "f \<in> set fs" "resolved_rank mr f = Some r" for f r
    proof -
      have "f \<in> fst ` set ?rs" using res_in that by simp
      then obtain x where x: "x \<in> set (best # worst)" "fst x = f" using sets by auto
      then have "resolved_rank mr f = Some (fst (snd x))"
        using file_rankings_loop_rank[of x mr fs] sets by auto
      then have "fst (snd x) = r" using that by simp
      then show ?thesis using x some(2) by auto
    qed
    have b_not_worst: "?b \<notin> set (map fst worst)" using dbw by simp
    have worst_eq: "f \<in> set (map fst worst) \<longleftrightarrow> f \<in> set fs \<and> resolved_rank mr f \<noteq> None \<and> f \<noteq> ?b"
      for f
    proof -
      have "f \<in> fst ` set (best # worst) \<longleftrightarrow> f \<in> set fs \<and> resolved_rank mr f \<noteq> None"
        using res_in sets by simp
      moreover have "fst ` set (best # worst) = insert ?b (set (map fst worst))" by simp
      ultimately show ?thesis using b_not_worst b_in b_res by (metis insert_iff option.distinct(1))
    qed
    have c1: "unique ?st' (basename ?b) =
        (case unique st (basename ?b) of None \<Rightarrow> Some (content ?b) | Some c \<Rightarrow> Some c)"
      using ua[OF b_in] some(3) by (simp split: option.splits)
    have c2: "not_unique_basefold ?st' (basename ?b) = not_unique_basefold st (basename ?b)"
      using na[OF b_in] some(4) b_not_worst by (simp split: option.splits)
    have c3: "not_unique_basefold ?st' (basename f) =
                   (case not_unique_basefold st (basename f) of
                      None \<Rightarrow> Some (content f) | Some c \<Rightarrow> Some c) \<and>
              unique ?st' (basename f) = unique st (basename f)"
      if "f \<in> set fs" "f \<noteq> ?b" "resolved_rank mr f \<noteq> None" for f
      using na[OF that(1)] ua[OF that(1)] some(3,4) worst_eq[of f] that
      by (simp split: option.splits)
    have c4: "unique ?st' (basename f) = unique st (basename f) \<and>
              not_unique_basefold ?st' (basename f) = not_unique_basefold st (basename f)"
      if "f \<in> set fs" "resolved_rank mr f = None" for f
      using na[OF that(1)] ua[OF that(1)] some(3,4) worst_eq[of f] that b_res
      by (auto split: option.splits)
    show ?thesis
      unfolding some(5) option.case
      using b_in b_res minr c1 c2 c3 c4 rep by blast
  qed
qed



text \<open>
  C4 as stated fails: in a group of three files of which two have a rank, the third is
  not copied to \<open>not_unique_basefold\<close>.
\<close>

theorem unresolved_member_counterexample:
  "s_number_groups example_group = [(''1'', example_group)] \<and>
   resolved_rank example_rankings ''./selection/filtered_pdbs_jc_5.0A/zzz_s1_q.pdb'' = None \<and>
   resolved_rank example_rankings ''./selection/filtered_pdbs_jc_5.0A/a_s1_x_model1.pdb'' = Some 1 \<and>
   resolved_rank example_rankings ''./selection/filtered_pdbs_jc_5.0A/b_s1_y_model1.pdb'' = Some 2 \<and>
   not_unique_basefold (process_group example_rankings (\<lambda>p. p) (''1'', example_group) empty_dirs)
     ''zzz_s1_q.pdb'' = None \<and>
   unique (process_group example_rankings (\<lambda>p. p) (''1'', example_group) empty_dirs)
     ''zzz_s1_q.pdb'' = None"
  by code_simp

theorem group_routing_witness:
  "length example_group \<noteq> 1 \<and> distinct (map basename example_group) \<and>
   canonical_file example_rankings example_group =
     Some ''./selection/filtered_pdbs_jc_5.0A/a_s1_x_model1.pdb'' \<and>
   unique (process_group example_rankings (\<lambda>p. p) (''1'', example_group) empty_dirs)
     (basename ''./selection/filtered_pdbs_jc_5.0A/a_s1_x_model1.pdb'') =
     Some ''./selection/filtered_pdbs_jc_5.0A/a_s1_x_model1.pdb'' \<and>
   not_unique_basefold (process_group example_rankings (\<lambda>p. p) (''1'', example_group) empty_dirs)
     (basename ''./selection/filtered_pdbs_jc_5.0A/a_s1_x_model1.pdb'') = None"
proof -
  have h1: "length example_group \<noteq> 1" by code_simp
  have h2: "distinct (map basename example_group)" by code_simp
  have h3: "canonical_file example_rankings example_group =
     Some ''./selection/filtered_pdbs_jc_5.0A/a_s1_x_model1.pdb''" by code_simp
  have h4: "unique empty_dirs n = None" "not_unique_basefold empty_dirs n = None" for n
    by (simp_all add: empty_dirs_def)
  show ?thesis
    using group_routing[OF h1 h2, of example_rankings "\<lambda>p. p" "''1''" empty_dirs] h1 h2 h3 h4
    by simp
qed

theorem ungrouped_file_omitted_witness:
  "extract_s_number (basename ''./selection/filtered_pdbs_jc_5.0A/design_mpnn1_model1.pdb'') = None \<and>
   unique (process_pooled_dir example_rankings (\<lambda>p. p)
             (example_group @ [''./selection/filtered_pdbs_jc_5.0A/design_mpnn1_model1.pdb''])
             empty_dirs)
     (basename ''./selection/filtered_pdbs_jc_5.0A/design_mpnn1_model1.pdb'') = None \<and>
   not_unique_basefold (process_pooled_dir example_rankings (\<lambda>p. p)
             (example_group @ [''./selection/filtered_pdbs_jc_5.0A/design_mpnn1_model1.pdb''])
             empty_dirs)
     (basename ''./selection/filtered_pdbs_jc_5.0A/design_mpnn1_model1.pdb'') = None"
proof -
  have h1: "extract_s_number
      (basename ''./selection/filtered_pdbs_jc_5.0A/design_mpnn1_model1.pdb'') = None"
    by code_simp
  have h4: "unique empty_dirs n = None" "not_unique_basefold empty_dirs n = None" for n
    by (simp_all add: empty_dirs_def)
  show ?thesis
    using ungrouped_file_omitted[OF h1, of
        "example_group @ [''./selection/filtered_pdbs_jc_5.0A/design_mpnn1_model1.pdb'']"
        example_rankings "\<lambda>p. p" empty_dirs] h1 h4
    by simp
qed

section \<open>Properties of Rank Join and of reruns\<close>

lemma process_pdb_success:
  assumes "lookups ind mas p = Some (ir, mr)"
  shows "process_pdb ind mas content p s =
     s\<lparr>files := (files s)(podium_path p ir mr \<mapsto> content p),
       copied_files := copied_files s + 1,
       overwritten_files := (if files s (podium_path p ir mr) \<noteq> None
                             then overwritten_files s + 1 else overwritten_files s),
       reports := reports s @
         [if files s (podium_path p ir mr) \<noteq> None
          then Overwritten (basename p) (the (extract_identifier (basename p)))
                 (podium_name ir mr (basename p))
          else Copied (basename p) (the (extract_identifier (basename p)))
                 (podium_name ir mr (basename p))]\<rparr>"
  using assms
  by (auto simp: lookups_def process_pdb_def Let_def split: option.splits)

lemma process_pdb_skip:
  assumes "lookups ind mas p = None"
  shows "process_pdb ind mas content p s =
     s\<lparr>skipped_files := skipped_files s + 1,
       reports := reports s @ [skip_report ind mas p]\<rparr>"
  using assms
  by (auto simp: lookups_def process_pdb_def skip_report_def Let_def split: option.splits)

lemma process_pdb_files:
  "files (process_pdb ind mas content p s) =
     (case podium_dest ind mas p of None \<Rightarrow> files s | Some d \<Rightarrow> (files s)(d \<mapsto> content p))"
proof (cases "lookups ind mas p")
  case None
  then show ?thesis by (simp add: process_pdb_skip podium_dest_def)
next
  case (Some a)
  obtain ir mr where "a = (ir, mr)" by (cases a)
  then show ?thesis using Some by (simp add: process_pdb_success podium_dest_def)
qed

lemma fold_process_pdb_files:
  "files (fold (process_pdb ind mas content) pdbs s) =
     files s ++ podium_writes ind mas content pdbs"
proof (induction pdbs arbitrary: s)
  case Nil
  then show ?case by (simp add: podium_writes_def map_add_def fun_eq_iff)
next
  case (Cons p pdbs)
  have "files (process_pdb ind mas content p s) ++ podium_writes ind mas content pdbs =
        files s ++ podium_writes ind mas content (p # pdbs)"
    by (auto simp: process_pdb_files podium_writes_def map_add_def fun_eq_iff find_app
        split: option.splits)
  then show ?case using Cons[of "process_pdb ind mas content p s"] by simp
qed

lemma run_files:
  "files (snd (copy_files_with_rankings st pdbs content fs)) =
     clear_podium_directories fs ++ join_writes st pdbs content"
proof (cases "get_file_rankings st")
  case (Inl e)
  then show ?thesis by (simp add: copy_files_with_rankings_def join_writes_def Let_def)
next
  case (Inr r)
  obtain ind mas where r: "r = (ind, mas)" by (cases r)
  have e: "podium_writes ind mas content [] = Map.empty"
    by (simp add: podium_writes_def fun_eq_iff)
  show ?thesis
    using Inr r e
    by (simp add: copy_files_with_rankings_def join_writes_def Let_def fold_process_pdb_files)
qed

lemma clear_overlay:
  "clear_podium_directories (clear_podium_directories fs ++ w) ++ w =
   clear_podium_directories fs ++ w"
  by (auto simp: clear_podium_directories_def map_add_def fun_eq_iff split: option.splits)

lemma rank_join_idempotent:
  "files (snd (copy_files_with_rankings st pdbs content
      (files (snd (copy_files_with_rankings st pdbs content fs))))) =
   files (snd (copy_files_with_rankings st pdbs content fs))"
  by (simp add: run_files clear_overlay)


lemma pooled_fold:
  "distinct ds \<Longrightarrow>
   fold (\<lambda>d sel. case listing d of None \<Rightarrow> sel | Some pdbs \<Rightarrow> sel(d := g pdbs (sel d))) ds sel =
   (\<lambda>d. if d \<in> set ds then (case listing d of None \<Rightarrow> sel d | Some pdbs \<Rightarrow> g pdbs (sel d))
         else sel d)"
proof (induction ds arbitrary: sel)
  case Nil
  then show ?case by simp
next
  case (Cons a ds)
  then have "a \<notin> set ds" "distinct ds" by simp_all
  then show ?case
    using Cons.IH[of "case listing a of None \<Rightarrow> sel | Some pdbs \<Rightarrow> sel(a := g pdbs (sel a))"]
    by (auto simp: fun_eq_iff split: option.splits)
qed

lemma process_duplicates_dirs:
  "snd (process_duplicates mf listing content sel) d =
     (case get_master_rankings mf of
        Inl e \<Rightarrow> sel d
      | Inr mr \<Rightarrow>
          if mr \<noteq> [] \<and> d \<in> set pooled_dirs
          then (case listing d of None \<Rightarrow> sel d
                | Some pdbs \<Rightarrow> process_pooled_dir mr content pdbs (sel d))
          else sel d)"
proof (cases "get_master_rankings mf")
  case (Inl e)
  then show ?thesis by (simp add: process_duplicates_def)
next
  case (Inr mr)
  have "distinct pooled_dirs" by (simp add: pooled_dirs_def)
  from pooled_fold[where listing=listing and g="process_pooled_dir mr content" and sel=sel,
      OF this]
  show ?thesis using Inr by (simp add: process_duplicates_def)
qed

lemma process_pooled_dir_idem:
  "unique (process_pooled_dir mr content pdbs (process_pooled_dir mr content pdbs st)) =
     unique (process_pooled_dir mr content pdbs st)"
  "not_unique_basefold (process_pooled_dir mr content pdbs (process_pooled_dir mr content pdbs st)) =
     not_unique_basefold (process_pooled_dir mr content pdbs st)"
  by (simp_all add: process_pooled_dir_dirs copy_absent_idem)

text \<open>
  C6.  A second run of Rank Join on the same tables and the same files found leaves the
  files of the tree as the first run left them; a second run of Duplicate Resolution on
  the same master table and the same directory listings leaves every \<open>unique\<close> and
  \<open>not_unique_basefold\<close> directory as the first run left it.
\<close>

theorem reruns_idempotent:
  "files (snd (copy_files_with_rankings st pdbs content
      (files (snd (copy_files_with_rankings st pdbs content fs))))) =
     files (snd (copy_files_with_rankings st pdbs content fs)) \<and>
   unique (snd (process_duplicates mf listing content'
      (snd (process_duplicates mf listing content' sel))) d) =
     unique (snd (process_duplicates mf listing content' sel) d) \<and>
   not_unique_basefold (snd (process_duplicates mf listing content'
      (snd (process_duplicates mf listing content' sel))) d) =
     not_unique_basefold (snd (process_duplicates mf listing content' sel) d)"
proof -
  have a: "files (snd (copy_files_with_rankings st pdbs content
      (files (snd (copy_files_with_rankings st pdbs content fs))))) =
     files (snd (copy_files_with_rankings st pdbs content fs))"
    by (rule rank_join_idempotent)
  have b: "unique (snd (process_duplicates mf listing content'
      (snd (process_duplicates mf listing content' sel))) d) =
     unique (snd (process_duplicates mf listing content' sel) d)"
    unfolding process_duplicates_dirs
    by (simp add: process_pooled_dir_idem split: sum.splits option.splits)
  have c: "not_unique_basefold (snd (process_duplicates mf listing content'
      (snd (process_duplicates mf listing content' sel))) d) =
     not_unique_basefold (snd (process_duplicates mf listing content' sel) d)"
    unfolding process_duplicates_dirs
    by (simp add: process_pooled_dir_idem split: sum.splits option.splits)
  show ?thesis using a b c by simp
qed


lemma lookups_iff:
  "lookups ind mas p = Some (ir, mr) \<longleftrightarrow>
     (\<exists>m i. extract_mother_folder_name p = Some m \<and> extract_identifier (basename p) = Some i \<and>
            individual_lookup ind m i = Some ir \<and> map_of mas i = Some mr)"
  by (auto simp: lookups_def split: option.splits)

lemma fold_process_pdb_counts:
  "copied_files (fold (process_pdb ind mas content) pdbs s) =
     copied_files s + length (filter (\<lambda>p. lookups ind mas p \<noteq> None) pdbs) \<and>
   skipped_files (fold (process_pdb ind mas content) pdbs s) =
     skipped_files s + length (filter (\<lambda>p. lookups ind mas p = None) pdbs) \<and>
   set (reports s) \<union> {skip_report ind mas p | p. p \<in> set pdbs \<and> lookups ind mas p = None}
     \<subseteq> set (reports (fold (process_pdb ind mas content) pdbs s))"
proof (induction pdbs arbitrary: s)
  case Nil
  then show ?case by simp
next
  case (Cons p pdbs)
  let ?s = "process_pdb ind mas content p s"
  show ?case
  proof (cases "lookups ind mas p")
    case None
    have "copied_files ?s = copied_files s" "skipped_files ?s = skipped_files s + 1"
      "set (reports ?s) = insert (skip_report ind mas p) (set (reports s))"
      using None by (simp_all add: process_pdb_skip)
    then show ?thesis using Cons[of ?s] None by auto
  next
    case (Some a)
    obtain ir mr where a: "a = (ir, mr)" by (cases a)
    have "copied_files ?s = copied_files s + 1" "skipped_files ?s = skipped_files s"
      "set (reports s) \<subseteq> set (reports ?s)"
      using Some a by (auto simp: process_pdb_success)
    then show ?thesis using Cons[of ?s] Some by auto
  qed
qed

lemma find_SomeD: "find P xs = Some x \<Longrightarrow> x \<in> set xs \<and> P x"
  by (induction xs) (auto split: if_splits)

lemma podium_writes_some:
  assumes "p \<in> set pdbs" "podium_dest ind mas p = Some q"
  shows "\<exists>p'\<in>set pdbs. podium_dest ind mas p' = Some q \<and>
           podium_writes ind mas content pdbs q = Some (content p')"
proof -
  have "\<exists>x\<in>set (rev pdbs). podium_dest ind mas x = Some q" using assms by auto
  then obtain p' where "find (\<lambda>p. podium_dest ind mas p = Some q) (rev pdbs) = Some p'"
    by (cases "find (\<lambda>p. podium_dest ind mas p = Some q) (rev pdbs)")
       (auto simp: find_None_iff)
  moreover from this have "p' \<in> set pdbs \<and> podium_dest ind mas p' = Some q"
    using find_SomeD[of "\<lambda>p. podium_dest ind mas p = Some q" "rev pdbs" p'] by simp
  ultimately show ?thesis by (auto simp: podium_writes_def)
qed

lemma podium_writes_none:
  assumes "\<forall>p\<in>set pdbs. podium_dest ind mas p \<noteq> Some q"
  shows "podium_writes ind mas content pdbs q = None"
  using assms by (simp add: podium_writes_def find_None_iff)

text \<open>
  C5.  Take a run of Rank Join that has rankings.  A file found has both ranks exactly
  when its mother folder and its identifier are found and both lookups succeed.  Then the
  copy named \<open>{subfolder rank}_{global rank}_{file name}\<close> in the \<open>podium\<close> directory
  exists after the run, with the contents of a file found that is copied to that path.
  Otherwise the file is reported, with the lookup that failed.  A path no file is copied
  to is as the clearing left it.  The files with both ranks are counted as copied, the
  others as skipped.
\<close>

theorem rank_join_tagging:
  assumes rk: "get_file_rankings st = Inr (ind, mas)" and some: "mas \<noteq> [] \<or> ind \<noteq> []"
  shows "(\<forall>p\<in>set pdbs.
            (\<forall>ir mr. lookups ind mas p = Some (ir, mr) \<longleftrightarrow>
               (\<exists>m i. extract_mother_folder_name p = Some m \<and>
                      extract_identifier (basename p) = Some i \<and>
                      individual_lookup ind m i = Some ir \<and> map_of mas i = Some mr)) \<and>
            (case lookups ind mas p of
               Some (ir, mr) \<Rightarrow>
                 (\<exists>p'\<in>set pdbs. podium_dest ind mas p' = Some (podium_path p ir mr) \<and>
                    files (snd (copy_files_with_rankings st pdbs content fs)) (podium_path p ir mr) =
                      Some (content p'))
             | None \<Rightarrow>
                 skip_report ind mas p
                   \<in> set (reports (snd (copy_files_with_rankings st pdbs content fs))))) \<and>
         (\<forall>q. (\<forall>p\<in>set pdbs. podium_dest ind mas p \<noteq> Some q) \<longrightarrow>
              files (snd (copy_files_with_rankings st pdbs content fs)) q =
                clear_podium_directories fs q) \<and>
         copied_files (snd (copy_files_with_rankings st pdbs content fs)) =
           length (filter (\<lambda>p. lookups ind mas p \<noteq> None) pdbs) \<and>
         skipped_files (snd (copy_files_with_rankings st pdbs content fs)) =
           length (filter (\<lambda>p. lookups ind mas p = None) pdbs)"
proof -
  let ?res = "snd (copy_files_with_rankings st pdbs content fs)"
  let ?start = "\<lparr>files = clear_podium_directories fs, copied_files = 0, skipped_files = 0,
                   overwritten_files = 0, reports = []\<rparr>"
  have fl: "files ?res = clear_podium_directories fs ++ podium_writes ind mas content pdbs"
    using rk some by (auto simp: run_files join_writes_def)
  have res: "pdbs \<noteq> [] \<Longrightarrow> ?res = fold (process_pdb ind mas content) pdbs ?start"
    using rk some by (auto simp: copy_files_with_rankings_def Let_def)
  have cnt: "copied_files ?res = length (filter (\<lambda>p. lookups ind mas p \<noteq> None) pdbs) \<and>
    skipped_files ?res = length (filter (\<lambda>p. lookups ind mas p = None) pdbs)"
  proof (cases "pdbs = []")
    case True
    then show ?thesis using rk some by (auto simp: copy_files_with_rankings_def Let_def)
  next
    case False
    then show ?thesis
      using fold_process_pdb_counts[of ind mas content pdbs ?start] res by simp
  qed
  have rep: "skip_report ind mas p \<in> set (reports ?res)"
    if "p \<in> set pdbs" "lookups ind mas p = None" for p
  proof -
    have "pdbs \<noteq> []" using that by auto
    then show ?thesis
      using fold_process_pdb_counts[of ind mas content pdbs ?start] res that by auto
  qed
  have wr: "\<exists>p'\<in>set pdbs. podium_dest ind mas p' = Some (podium_path p ir mr) \<and>
              files ?res (podium_path p ir mr) = Some (content p')"
    if "p \<in> set pdbs" "lookups ind mas p = Some (ir, mr)" for p ir mr
  proof -
    have "podium_dest ind mas p = Some (podium_path p ir mr)"
      using that by (simp add: podium_dest_def)
    from podium_writes_some[OF that(1) this, of content] show ?thesis
      unfolding fl by (auto simp: map_add_def)
  qed
  have un: "files ?res q = clear_podium_directories fs q"
    if "\<forall>p\<in>set pdbs. podium_dest ind mas p \<noteq> Some q" for q
    unfolding fl using podium_writes_none[OF that, of content] by (simp add: map_add_def)
  have per: "(case lookups ind mas p of
               Some (ir, mr) \<Rightarrow>
                 (\<exists>p'\<in>set pdbs. podium_dest ind mas p' = Some (podium_path p ir mr) \<and>
                    files ?res (podium_path p ir mr) = Some (content p'))
             | None \<Rightarrow> skip_report ind mas p \<in> set (reports ?res))"
    if "p \<in> set pdbs" for p
    using wr[OF that] rep[OF that] by (cases "lookups ind mas p") auto
  show ?thesis
  proof (intro conjI ballI allI impI)
    fix p assume "p \<in> set pdbs"
    then show "case lookups ind mas p of
               Some (ir, mr) \<Rightarrow>
                 (\<exists>p'\<in>set pdbs. podium_dest ind mas p' = Some (podium_path p ir mr) \<and>
                    files ?res (podium_path p ir mr) = Some (content p'))
             | None \<Rightarrow> skip_report ind mas p \<in> set (reports ?res)"
      by (rule per)
  next
    fix p ir mr
    show "lookups ind mas p = Some (ir, mr) \<longleftrightarrow>
               (\<exists>m i. extract_mother_folder_name p = Some m \<and>
                      extract_identifier (basename p) = Some i \<and>
                      individual_lookup ind m i = Some ir \<and> map_of mas i = Some mr)"
      by (rule lookups_iff)
  next
    fix q assume "\<forall>p\<in>set pdbs. podium_dest ind mas p \<noteq> Some q"
    then show "files ?res q = clear_podium_directories fs q" by (rule un)
  next
    show "copied_files ?res = length (filter (\<lambda>p. lookups ind mas p \<noteq> None) pdbs)"
      using cnt by simp
  next
    show "skipped_files ?res = length (filter (\<lambda>p. lookups ind mas p = None) pdbs)"
      using cnt by simp
  qed
qed

theorem rank_join_tagging_witness:
  "get_file_rankings example_stats_files =
     Inr ([(''v1'', [(''s1_mpnn2'', 1), (''s7_mpnn1'', 2)])], [(''s1_mpnn2'', 1), (''s7_mpnn1'', 2)]) \<and>
   lookups [(''v1'', [(''s1_mpnn2'', 1), (''s7_mpnn1'', 2)])] [(''s1_mpnn2'', 1), (''s7_mpnn1'', 2)]
     ''./v1/pooled/aligned/filtered_pdbs_jc_5.0A/v1_s7_mpnn1_model1.pdb'' = Some (2, 2) \<and>
   podium_path ''./v1/pooled/aligned/filtered_pdbs_jc_5.0A/v1_s7_mpnn1_model1.pdb'' 2 2 =
     ''./v1/pooled/aligned/filtered_pdbs_jc_5.0A/podium/2_2_v1_s7_mpnn1_model1.pdb'' \<and>
   copied_files (snd (copy_files_with_rankings example_stats_files example_pdbs (\<lambda>p. p) Map.empty)) = 1 \<and>
   skipped_files (snd (copy_files_with_rankings example_stats_files example_pdbs (\<lambda>p. p) Map.empty)) = 1"
proof -
  let ?ind = "[(''v1'', [(''s1_mpnn2'', 1 :: nat), (''s7_mpnn1'', 2)])]"
  let ?mas = "[(''s1_mpnn2'', 1 :: nat), (''s7_mpnn1'', 2)]"
  have h1: "get_file_rankings example_stats_files = Inr (?ind, ?mas)" by code_simp
  have h2: "?mas \<noteq> [] \<or> ?ind \<noteq> []" by simp
  have c1: "length (filter (\<lambda>p. lookups ?ind ?mas p \<noteq> None) example_pdbs) = 1" by code_simp
  have c2: "length (filter (\<lambda>p. lookups ?ind ?mas p = None) example_pdbs) = 1" by code_simp
  have c3: "lookups ?ind ?mas
     ''./v1/pooled/aligned/filtered_pdbs_jc_5.0A/v1_s7_mpnn1_model1.pdb'' = Some (2, 2)"
    by code_simp
  have c4: "podium_path ''./v1/pooled/aligned/filtered_pdbs_jc_5.0A/v1_s7_mpnn1_model1.pdb'' 2 2 =
     ''./v1/pooled/aligned/filtered_pdbs_jc_5.0A/podium/2_2_v1_s7_mpnn1_model1.pdb''"
    by code_simp
  show ?thesis
    using rank_join_tagging[OF h1 h2, of example_pdbs "\<lambda>p. p" Map.empty] h1 c1 c2 c3 c4
    by simp
qed

section \<open>Properties of the read loop\<close>














section \<open>Properties of the exit status\<close>











text \<open>
  A text cell in a metric column ends the Score Aggregator with a non-zero status: the
  table of the subfolder is written, the format \<open>:.3f\<close> then raises, and no master table
  is written.
\<close>

lemma text_metric_exit:
  "error (aggregate reverse_ties_sort text_stats) = Some ValueError \<and>
   master_df (aggregate reverse_ties_sort text_stats) = None \<and>
   map fst (subdir_results (aggregate reverse_ties_sort text_stats)) = [''run1''] \<and>
   aggregate_script_exit reverse_ties_sort text_stats = 1"
  by code_simp

text \<open>
  The answer to the prompt of Duplicate Resolution is compared in lower case and without
  the spaces around it; the end of the input ends the script with an exception.
\<close>

lemma typed_answer_proceeds:
  "dedup_main False (Some '' Y '') mf listing content sel =
     process_duplicates mf listing content sel \<and>
   dedup_main False (Some ''Yes'') mf listing content sel =
     process_duplicates mf listing content sel \<and>
   dedup_main False (Some ''n'') mf listing content sel = (None, sel) \<and>
   dedup_main False None mf listing content sel = (Some EOFError, sel)"
proof -
  have a: "str_strip (str_lower '' Y '') = ''y''" by code_simp
  have b: "str_strip (str_lower ''Yes'') = ''yes''" by code_simp
  have c: "str_strip (str_lower ''n'') = ''n''" by code_simp
  show ?thesis unfolding dedup_main_def Let_def option.case a b c by simp
qed






section \<open>Properties of the identifier extraction\<close>










end
